theory Spec2Isabelle
  imports Complex_Main
begin

section \<open>The \<open>double\<close> values of the evaluator\<close>

text \<open>
  \<open>Expression.h\<close> computes on C++ \<open>double\<close> values. They are modelled as IEEE 754
  binary64 data: the NaNs, the two infinities, and the finite values, each with its sign
  bit (\<open>True\<close> is negative); a finite value has an exact rational magnitude, so that the
  two zeros are distinct. The payload of a NaN is not modelled. \<open>NaN\<close> is the value of the
  macro \<open>NAN\<close>, a NaN with a clear sign bit. Every operation rounds its exact result to
  the nearest representable value, ties to even.
\<close>

datatype double = NotANumber bool | Infinity bool | Finite bool rat

abbreviation NaN :: double where
  "NaN \<equiv> NotANumber False"

function bitlen :: "int \<Rightarrow> int" where
  "bitlen n = (if n \<le> 0 then 0 else 1 + bitlen (n div 2))"
  by pat_completeness auto
termination
  by (relation "measure nat") auto

declare bitlen.simps [simp del]

function ipow :: "rat \<Rightarrow> int \<Rightarrow> rat" where
  \<comment> \<open>\<open>b ^ k\<close> for \<open>k \<ge> 0\<close>, by repeated squaring\<close>
  "ipow b k =
     (if k \<le> 0 then 1
      else if even k then ipow (b * b) (k div 2)
      else b * ipow (b * b) (k div 2))"
  by pat_completeness auto
termination
  by (relation "measure (\<lambda>(b, k). nat k)") auto

declare ipow.simps [simp del]

definition pow2 :: "int \<Rightarrow> rat" where
  "pow2 k = (if 0 \<le> k then ipow 2 k else 1 / ipow 2 (- k))"

definition ilog2 :: "rat \<Rightarrow> int" where
  \<comment> \<open>\<open>\<lfloor>log\<^sub>2 q\<rfloor>\<close> of a positive rational\<close>
  "ilog2 q =
     (let (a, b) = quotient_of q;
          k = bitlen a - bitlen b
      in if pow2 k \<le> q then k else k - 1)"

definition round_half_even :: "rat \<Rightarrow> int" where
  "round_half_even q =
     (let n = \<lfloor>q\<rfloor>; r = q - of_int n
      in if r < 1 / 2 then n
         else if 1 / 2 < r then n + 1
         else if even n then n else n + 1)"

definition round_to :: "nat \<Rightarrow> int \<Rightarrow> int \<Rightarrow> bool \<Rightarrow> rat \<Rightarrow> double" where
  \<comment> \<open>the magnitude \<open>q \<ge> 0\<close> with sign \<open>s\<close>, rounded to precision \<open>p\<close> and exponent range
      \<open>emin .. emax\<close>; subnormals are kept, an overflow is an infinity\<close>
  "round_to p emin emax s q =
     (if q = 0 then Finite s 0
      else let e = max (ilog2 q) emin;
               u = pow2 (e - int p + 1);
               r = of_int (round_half_even (q / u)) * u
           in if pow2 (emax + 1) \<le> r then Infinity s else Finite s r)"

definition to_double :: "bool \<Rightarrow> rat \<Rightarrow> double" where
  "to_double = round_to 53 (- 1022) 1023"

definition to_float :: "bool \<Rightarrow> rat \<Rightarrow> double" where
  \<comment> \<open>a \<open>float\<close> literal (suffix \<open>f\<close>) rounds to binary32; its conversion to \<open>double\<close> is exact\<close>
  "to_float = round_to 24 (- 126) 127"

definition signed :: "bool \<Rightarrow> rat \<Rightarrow> rat" where
  "signed s q = (if s then - q else q)"

text \<open>
  IEEE 754 does not fix the sign of the NaN that an arithmetic operation returns, for a
  NaN operand or for an invalid operation; processors and compilers differ. It is left
  unspecified here: a function of the operation and its operands of which nothing is
  known. Only negation is an operation on the sign bit.
\<close>

definition nan_result :: "string \<Rightarrow> double \<Rightarrow> double \<Rightarrow> double" where
  "nan_result op x y = NotANumber (undefined op x y)"

fun dadd :: "double \<Rightarrow> double \<Rightarrow> double" where
  "dadd (NotANumber s) y = nan_result ''+'' (NotANumber s) y"
| "dadd x (NotANumber t) = nan_result ''+'' x (NotANumber t)"
| "dadd (Infinity s) (Infinity t) =
     (if s = t then Infinity s else nan_result ''+'' (Infinity s) (Infinity t))"
| "dadd (Infinity s) (Finite t q) = Infinity s"
| "dadd (Finite s p) (Infinity t) = Infinity t"
| "dadd (Finite s p) (Finite t q) =
     (let z = signed s p + signed t q
      in if z = 0 then Finite (s \<and> t) 0 else to_double (z < 0) \<bar>z\<bar>)"

fun dneg :: "double \<Rightarrow> double" where
  "dneg (NotANumber s) = NotANumber (\<not> s)"
| "dneg (Infinity s) = Infinity (\<not> s)"
| "dneg (Finite s q) = Finite (\<not> s) q"

definition dsub :: "double \<Rightarrow> double \<Rightarrow> double" where
  "dsub x y = dadd x (dneg y)"

fun dmul :: "double \<Rightarrow> double \<Rightarrow> double" where
  "dmul (NotANumber s) y = nan_result ''*'' (NotANumber s) y"
| "dmul x (NotANumber t) = nan_result ''*'' x (NotANumber t)"
| "dmul (Infinity s) (Infinity t) = Infinity (s \<noteq> t)"
| "dmul (Infinity s) (Finite t q) =
     (if q = 0 then nan_result ''*'' (Infinity s) (Finite t q) else Infinity (s \<noteq> t))"
| "dmul (Finite s p) (Infinity t) =
     (if p = 0 then nan_result ''*'' (Finite s p) (Infinity t) else Infinity (s \<noteq> t))"
| "dmul (Finite s p) (Finite t q) = to_double (s \<noteq> t) (p * q)"

fun ddiv :: "double \<Rightarrow> double \<Rightarrow> double" where
  "ddiv (NotANumber s) y = nan_result ''/'' (NotANumber s) y"
| "ddiv x (NotANumber t) = nan_result ''/'' x (NotANumber t)"
| "ddiv (Infinity s) (Infinity t) = nan_result ''/'' (Infinity s) (Infinity t)"
| "ddiv (Infinity s) (Finite t q) = Infinity (s \<noteq> t)"
| "ddiv (Finite s p) (Infinity t) = Finite (s \<noteq> t) 0"
| "ddiv (Finite s p) (Finite t q) =
     (if q = 0
      then (if p = 0 then nan_result ''/'' (Finite s p) (Finite t q) else Infinity (s \<noteq> t))
      else to_double (s \<noteq> t) (p / q))"

section \<open>The C library calls: \<open>strtod\<close> and the output of a \<open>double\<close>\<close>

text \<open>
  \<open>getNumber\<close> reads a token with \<open>strtod\<close> and \<open>numberToString\<close> writes a value with
  \<open>operator<<\<close> of a default \<open>ostringstream\<close>. Both belong to the C and C++ libraries, not
  to the repository; they are modelled here from the language standards, in the "C" locale:
  \<open>strtod\<close> skips white space, reads an optional sign and then the longest decimal or
  hexadecimal floating constant, \<open>inf\<close>, \<open>infinity\<close> or \<open>nan\<close> (with an optional
  parenthesised payload), and returns the value, correctly rounded, with the unread rest;
  the stream writes as \<open>printf\<close> does with \<open>%g\<close> and precision 6.
\<close>

definition isspace :: "char \<Rightarrow> bool" where
  "isspace c = (c \<in> set [CHR '' '', CHR 0x09, CHR 0x0A, CHR 0x0B, CHR 0x0C, CHR 0x0D])"

definition isdigit :: "char \<Rightarrow> bool" where
  "isdigit c = (c \<in> set ''0123456789'')"

definition isxdigit :: "char \<Rightarrow> bool" where
  "isxdigit c = (c \<in> set ''0123456789abcdefABCDEF'')"

definition tolower :: "char \<Rightarrow> char" where
  "tolower c =
     (case map_of (zip ''ABCDEFGHIJKLMNOPQRSTUVWXYZ'' ''abcdefghijklmnopqrstuvwxyz'') c of
        Some l \<Rightarrow> l
      | None \<Rightarrow> c)"

definition isnchar :: "char \<Rightarrow> bool" where
  \<comment> \<open>the characters of a NaN payload: digits, letters and the underscore\<close>
  "isnchar c = (isdigit c \<or> tolower c \<in> set ''abcdefghijklmnopqrstuvwxyz'' \<or> c = CHR ''_'')"

definition xdigit_val :: "char \<Rightarrow> int" where
  "xdigit_val c =
     (if isdigit c then of_char c - 48
      else if c \<in> set ''abcdef'' then of_char c - 87
      else of_char c - 55)"

definition digits_val :: "int \<Rightarrow> string \<Rightarrow> int" where
  "digits_val base ds = foldl (\<lambda>n c. base * n + xdigit_val c) 0 ds"

definition pow10 :: "int \<Rightarrow> rat" where
  "pow10 k = (if 0 \<le> k then ipow 10 k else 1 / ipow 10 (- k))"

fun ci_prefix :: "string \<Rightarrow> string \<Rightarrow> string option" where
  \<comment> \<open>the rest of the text after the given lower-case word, matched ignoring case\<close>
  "ci_prefix [] s = Some s"
| "ci_prefix (k # ks) [] = None"
| "ci_prefix (k # ks) (c # cs) = (if tolower c = k then ci_prefix ks cs else None)"

definition sign_part :: "string \<Rightarrow> bool \<times> string" where
  "sign_part s =
     (case s of
        [] \<Rightarrow> (False, s)
      | c # r \<Rightarrow>
          if c = CHR ''-'' then (True, r)
          else if c = CHR ''+'' then (False, r)
          else (False, s))"

definition exponent_part :: "string \<Rightarrow> string \<Rightarrow> int \<times> string" where
  \<comment> \<open>an exponent is read only when at least one digit follows its marker and sign\<close>
  "exponent_part marks s =
     (case s of
        [] \<Rightarrow> (0, s)
      | c # r \<Rightarrow>
          if c \<in> set marks then
            (let (neg, r') = sign_part r; ds = takeWhile isdigit r'
             in if ds = [] then (0, s)
                else ((if neg then - 1 else 1) * digits_val 10 ds, dropWhile isdigit r'))
          else (0, s))"

definition fraction_part :: "(char \<Rightarrow> bool) \<Rightarrow> string \<Rightarrow> string \<times> string" where
  "fraction_part isd s =
     (case s of
        [] \<Rightarrow> ([], s)
      | c # r \<Rightarrow>
          if c = CHR ''.'' then (takeWhile isd r, dropWhile isd r) else ([], s))"

definition dec_float :: "string \<Rightarrow> (rat \<times> string) option" where
  "dec_float s =
     (let ip = takeWhile isdigit s;
          (fp, r2) = fraction_part isdigit (dropWhile isdigit s)
      in if ip = [] \<and> fp = [] then None
         else let (ex, r3) = exponent_part ''eE'' r2
              in Some (of_int (digits_val 10 (ip @ fp)) * pow10 (ex - int (length fp)), r3))"

definition hex_float :: "string \<Rightarrow> (rat \<times> string) option" where
  "hex_float s =
     (case s of
        z # x # r \<Rightarrow>
          if z = CHR ''0'' \<and> (x = CHR ''x'' \<or> x = CHR ''X'') then
            (let ip = takeWhile isxdigit r;
                 (fp, r2) = fraction_part isxdigit (dropWhile isxdigit r)
             in if ip = [] \<and> fp = [] then None
                else let (ex, r3) = exponent_part ''pP'' r2
                     in Some (of_int (digits_val 16 (ip @ fp)) * pow2 (ex - 4 * int (length fp)), r3))
          else None
      | _ \<Rightarrow> None)"

definition nan_payload :: "string \<Rightarrow> string" where
  \<comment> \<open>the rest after an optional \<open>(n-char-sequence)\<close>\<close>
  "nan_payload s =
     (case s of
        [] \<Rightarrow> s
      | c # r \<Rightarrow>
          if c = CHR ''(''
          then (case dropWhile isnchar r of
                  [] \<Rightarrow> s
                | d # r' \<Rightarrow> if d = CHR '')'' then r' else s)
          else s)"

definition inf_nan :: "bool \<Rightarrow> string \<Rightarrow> (double \<times> string) option" where
  "inf_nan neg s =
     (case ci_prefix ''inf'' s of
        Some r \<Rightarrow>
          (case ci_prefix ''inity'' r of
             Some r' \<Rightarrow> Some (Infinity neg, r')
           | None \<Rightarrow> Some (Infinity neg, r))
      | None \<Rightarrow>
          (case ci_prefix ''nan'' s of
             Some r \<Rightarrow> Some (NotANumber neg, nan_payload r)
           | None \<Rightarrow> None))"

definition strtod :: "string \<Rightarrow> double \<times> string" where
  \<comment> \<open>the value and the text left unread (\<open>*endptr\<close>); with no conversion the value is zero
      and the whole text is left\<close>
  "strtod nptr =
     (let (neg, s) = sign_part (dropWhile isspace nptr)
      in case inf_nan neg s of
           Some r \<Rightarrow> r
         | None \<Rightarrow>
             (case hex_float s of
                Some (q, r) \<Rightarrow> (to_double neg q, r)
              | None \<Rightarrow>
                  (case dec_float s of
                     Some (q, r) \<Rightarrow> (to_double neg q, r)
                   | None \<Rightarrow> (Finite False 0, nptr))))"

function declen :: "int \<Rightarrow> int" where
  "declen n = (if n \<le> 0 then 0 else 1 + declen (n div 10))"
  by pat_completeness auto
termination
  by (relation "measure nat") auto

declare declen.simps [simp del]

definition ilog10 :: "rat \<Rightarrow> int" where
  \<comment> \<open>\<open>\<lfloor>log\<^sub>1\<^sub>0 q\<rfloor>\<close> of a positive rational\<close>
  "ilog10 q =
     (let (a, b) = quotient_of q; k = declen a - declen b
      in if pow10 k \<le> q then k else k - 1)"

function digits10 :: "int \<Rightarrow> string" where
  "digits10 n = (if n \<le> 0 then [] else digits10 (n div 10) @ [char_of (48 + n mod 10)])"
  by pat_completeness auto
termination
  by (relation "measure nat") auto

declare digits10.simps [simp del]

definition strip_zeros :: "string \<Rightarrow> string" where
  "strip_zeros ds = rev (dropWhile (\<lambda>c. c = CHR ''0'') (rev ds))"

definition exponent_digits :: "int \<Rightarrow> string" where
  \<comment> \<open>at least two digits\<close>
  "exponent_digits x =
     (if x < 10 then CHR ''0'' # (if x = 0 then ''0'' else digits10 x) else digits10 x)"

definition decimal6 :: "rat \<Rightarrow> int \<times> int" where
  \<comment> \<open>the conversion of a positive value to six significant decimal digits: the digits
      \<open>n\<close>, as a number, and the decimal exponent \<open>x\<close> of the first; they stand for
      \<open>n * 10^(x - 5)\<close>\<close>
  "decimal6 q =
     (let x0 = ilog10 q;
          n0 = round_half_even (q / pow10 (x0 - 5))
      in if n0 = 1000000 then (100000, x0 + 1) else (n0, x0))"

definition format_g :: "rat \<Rightarrow> string" where
  \<comment> \<open>\<open>%g\<close> with precision 6 of a positive value: six significant digits, style \<open>e\<close> when
      the decimal exponent is below \<open>-4\<close> or at least 6, trailing zeros removed\<close>
  "format_g q =
     (let (n, x) = decimal6 q;
          ds = digits10 n
      in if x < - 4 \<or> 6 \<le> x then
           (let fr = strip_zeros (tl ds)
            in hd ds # (if fr = [] then [] else CHR ''.'' # fr)
               @ CHR ''e'' # (if x < 0 then CHR ''-'' else CHR ''+'') # exponent_digits \<bar>x\<bar>)
         else if 0 \<le> x then
           (let fr = strip_zeros (drop (nat x + 1) ds)
            in take (nat x + 1) ds @ (if fr = [] then [] else CHR ''.'' # fr))
         else ''0.'' @ replicate (nat (- x - 1)) (CHR ''0'') @ strip_zeros ds)"

definition show_double :: "double \<Rightarrow> string" where
  \<comment> \<open>\<open>oss << val\<close>\<close>
  "show_double v =
     (case v of
        NotANumber s \<Rightarrow> (if s then ''-nan'' else ''nan'')
      | Infinity s \<Rightarrow> (if s then ''-inf'' else ''inf'')
      | Finite s q \<Rightarrow> (if s then ''-'' else []) @ (if q = 0 then ''0'' else format_g q))"

text \<open>
  The mathematical functions that \<open>Expression.h\<close> calls come from the platform's \<open>libm\<close>;
  the standards do not fix their results bit by bit, so they are parameters of the model.
\<close>

record libm =
  c_pow :: "double \<Rightarrow> double \<Rightarrow> double"
  c_sin :: "double \<Rightarrow> double"
  c_cos :: "double \<Rightarrow> double"
  c_tan :: "double \<Rightarrow> double"
  c_log :: "double \<Rightarrow> double"
  c_log10 :: "double \<Rightarrow> double"
  c_exp :: "double \<Rightarrow> double"
  c_sqrt :: "double \<Rightarrow> double"
  c_abs :: "double \<Rightarrow> double"

section \<open>\<open>Expression.h\<close>: data\<close>

record CustomFunction =
  name :: string
  f :: "double \<Rightarrow> double"

record Variable =
  name :: string
  val :: double

section \<open>\<open>Expression.h\<close>: the symbol classifier\<close>

definition defaultFunctions :: "libm \<Rightarrow> CustomFunction list" where
  "defaultFunctions lm =
     [\<lparr>CustomFunction.name = ''sin'', f = c_sin lm\<rparr>,
      \<lparr>CustomFunction.name = ''cos'', f = c_cos lm\<rparr>,
      \<lparr>CustomFunction.name = ''tan'', f = c_tan lm\<rparr>,
      \<lparr>CustomFunction.name = ''ln'', f = c_log lm\<rparr>,
      \<lparr>CustomFunction.name = ''log'', f = c_log10 lm\<rparr>,
      \<lparr>CustomFunction.name = ''exp'', f = c_exp lm\<rparr>,
      \<lparr>CustomFunction.name = ''sqrt'', f = c_sqrt lm\<rparr>,
      \<lparr>CustomFunction.name = ''abs'', f = c_abs lm\<rparr>]"

definition defaultVariables :: "Variable list" where
  \<comment> \<open>the literals \<open>3.141592654f\<close> and \<open>2.718281828f\<close>\<close>
  "defaultVariables =
     [\<lparr>Variable.name = ''pi'', val = to_float False (3141592654 / 1000000000)\<rparr>,
      \<lparr>Variable.name = ''e'', val = to_float False (2718281828 / 1000000000)\<rparr>]"

function checkParenthesis_loop :: "string \<Rightarrow> nat \<Rightarrow> int \<Rightarrow> int" where
  "checkParenthesis_loop t pos cnt =
     (if pos < length t \<and> 0 \<le> cnt then
        checkParenthesis_loop t (pos + 1)
          (if t ! pos = CHR ''('' then cnt + 1
           else if t ! pos = CHR '')'' then cnt - 1
           else cnt)
      else cnt)"
  by pat_completeness auto
termination
  by (relation "measure (\<lambda>(t, pos, cnt). length t - pos)") auto

declare checkParenthesis_loop.simps [simp del]

definition checkParenthesis :: "string \<Rightarrow> bool" where
  \<comment> \<open>\<open>cnt\<close> is an \<open>int\<close> of the source; it stays within 32 bits for a text of fewer than
      \<open>2^31\<close> characters\<close>
  "checkParenthesis t = (checkParenthesis_loop t 0 0 = 0)"

definition isOperator :: "string \<Rightarrow> bool" where
  "isOperator str =
     (str = ''+'' \<or> str = ''-'' \<or> str = ''*'' \<or> str = ''/'' \<or> str = ''^'' \<or> str = ''~'')"

definition isLeftAssociative :: "string \<Rightarrow> bool" where
  "isLeftAssociative str = (str = ''+'' \<or> str = ''-'' \<or> str = ''*'' \<or> str = ''/'')"

definition isBinaryOperator :: "string \<Rightarrow> bool" where
  "isBinaryOperator str =
     (str = ''+'' \<or> str = ''-'' \<or> str = ''*'' \<or> str = ''/'' \<or> str = ''^'')"

definition isUnaryOperator :: "string \<Rightarrow> bool" where
  "isUnaryOperator str = (str = ''~'')"

definition c_str :: "string \<Rightarrow> string" where
  \<comment> \<open>the C string of a \<open>std::string\<close> ends at its first NUL\<close>
  "c_str s = takeWhile (\<lambda>c. c \<noteq> CHR 0x00) s"

definition getNumber :: "string \<Rightarrow> double option" where
  \<comment> \<open>\<open>Some val\<close> when the source returns true, with the value it stores in \<open>val\<close>\<close>
  "getNumber str =
     (let str' = (if 0 < length str \<and> str ! 0 = CHR ''~'' then str[0 := CHR ''-''] else str);
          (v, p) = strtod (c_str str')
      in if p = [] then Some v else None)"

definition numberToString :: "double \<Rightarrow> string" where
  "numberToString v = show_double v"

definition calculate :: "libm \<Rightarrow> double \<Rightarrow> double \<Rightarrow> string \<Rightarrow> double" where
  "calculate lm a b op =
     (if op = ''+'' then dadd a b
      else if op = ''-'' then dsub a b
      else if op = ''*'' then dmul a b
      else if op = ''/'' then ddiv a b
      else if op = ''^'' then c_pow lm a b
      else NaN)"

definition calculateUnary :: "double \<Rightarrow> string \<Rightarrow> double" where
  "calculateUnary x op = (if op = ''~'' then dmul (Finite True 1) x else NaN)"

definition precedence :: "string \<Rightarrow> int" where
  "precedence op =
     (if op = ''+'' \<or> op = ''-'' then 1
      else if op = ''*'' \<or> op = ''/'' then 2
      else if op = ''^'' \<or> op = ''~'' then 3
      else 0)"

fun isVariable_loop :: "string \<Rightarrow> Variable list \<Rightarrow> double option" where
  "isVariable_loop nm [] = None"
| "isVariable_loop nm (v # vars) =
     (if Variable.name v = nm then Some (val v)
      else if ''~'' @ Variable.name v = nm then Some (dmul (Finite True 1) (val v))
      else isVariable_loop nm vars)"

definition isVariable :: "string \<Rightarrow> Variable list \<Rightarrow> double option" where
  "isVariable nm vars = (if isOperator nm then None else isVariable_loop nm vars)"

fun isFunction :: "CustomFunction list \<Rightarrow> string \<Rightarrow> (double \<Rightarrow> double) option" where
  "isFunction [] nm = None"
| "isFunction (fn # fns) nm =
     (if CustomFunction.name fn = nm then Some (f fn) else isFunction fns nm)"

section \<open>\<open>Expression.h\<close>: the tokenizer\<close>

definition find_first_of :: "string \<Rightarrow> string \<Rightarrow> nat \<Rightarrow> nat option" where
  \<comment> \<open>\<open>std::string::find_first_of\<close>: the first position from \<open>pos\<close> on that holds one of
      the characters; \<open>None\<close> is \<open>npos\<close>\<close>
  "find_first_of s chars pos =
     (let r = drop pos s
      in if \<exists>c \<in> set r. c \<in> set chars
         then Some (pos + length (takeWhile (\<lambda>c. c \<notin> set chars) r))
         else None)"

definition substr :: "string \<Rightarrow> nat \<Rightarrow> nat \<Rightarrow> string" where
  \<comment> \<open>\<open>std::string::substr\<close>, for \<open>pos\<close> within the text\<close>
  "substr s pos n = take n (drop pos s)"

function getTokens_loop :: "string \<Rightarrow> nat \<Rightarrow> string list \<Rightarrow> string list" where
  \<comment> \<open>the \<open>while\<close> loop of \<open>getTokens\<close> and the statements after it; the \<open>else\<close> branch inside
      the loop cannot run, since the loop condition is its negation\<close>
  "getTokens_loop t pos tokens =
     (case find_first_of t ''()+-*/^~'' pos of
        Some nextPos \<Rightarrow>
          (let opchar = [t ! nextPos];
               token = substr t pos (nextPos - pos);
               tokens1 = (if 0 < length token then tokens @ [token] else tokens)
           in getTokens_loop t (nextPos + 1) (tokens1 @ [opchar]))
      | None \<Rightarrow>
          (let token = drop pos t
           in if 0 < length token then tokens @ [token] else tokens))"
  by pat_completeness auto
termination
proof (relation "measure (\<lambda>(t, pos, tokens). length t - pos)", goal_cases)
  case 1
  show ?case by simp
next
  case (2 t pos tokens nextPos)
  let ?r = "drop pos t" and ?P = "\<lambda>c. c \<notin> set ''()+-*/^~''"
  from 2 have ex: "\<exists>c \<in> set ?r. \<not> ?P c" and n: "nextPos = pos + length (takeWhile ?P ?r)"
    by (auto simp: find_first_of_def Let_def split: if_splits)
  from ex have "dropWhile ?P ?r \<noteq> []"
    by (simp add: dropWhile_eq_Nil_conv)
  then have "0 < length (dropWhile ?P ?r)"
    by (rule length_greater_0_conv [THEN iffD2])
  moreover have "length (takeWhile ?P ?r) + length (dropWhile ?P ?r) = length ?r"
    by (simp only: length_append [symmetric] takeWhile_dropWhile_id)
  ultimately have "length (takeWhile ?P ?r) < length ?r"
    by linarith
  with n show ?case by simp
qed

declare getTokens_loop.simps [simp del]

definition getTokens :: "string \<Rightarrow> string list" where
  \<comment> \<open>on the member \<open>text\<close>, from which the constructor has removed the spaces\<close>
  "getTokens t = (if \<not> checkParenthesis t then [] else getTokens_loop t 0 [])"

section \<open>\<open>Expression.h\<close>: the shunting-yard converter\<close>

text \<open>
  The state of \<open>getRPN\<close> is the output \<open>rpn\<close> and the stack \<open>operators\<close>, a list whose head
  is the top. Each of its three inner \<open>while\<close> loops is a function of its own.
\<close>

fun pop_operators :: "string \<Rightarrow> string list \<Rightarrow> string list \<Rightarrow> string list \<times> string list" where
  \<comment> \<open>the loop of the operator case\<close>
  "pop_operators token rpn [] = (rpn, [])"
| "pop_operators token rpn (o2 # operators) =
     (if o2 \<noteq> ''(''
         \<and> (precedence o2 > precedence token
            \<or> (precedence o2 = precedence token \<and> isLeftAssociative token))
      then pop_operators token (rpn @ [o2]) operators
      else (rpn, o2 # operators))"

fun pop_to_paren :: "string list \<Rightarrow> string list \<Rightarrow> string list \<times> string list" where
  \<comment> \<open>the loop of the right parenthesis case\<close>
  "pop_to_paren rpn [] = (rpn, [])"
| "pop_to_paren rpn (o2 # operators) =
     (if o2 \<noteq> ''('' then pop_to_paren (rpn @ [o2]) operators else (rpn, o2 # operators))"

fun pop_remaining :: "string list \<Rightarrow> string list \<Rightarrow> string list" where
  \<comment> \<open>the loop after all tokens are read\<close>
  "pop_remaining rpn [] = rpn"
| "pop_remaining rpn (op # operators) =
     pop_remaining (if op \<noteq> ''('' then rpn @ [op] else rpn) operators"

definition getRPN_step ::
  "CustomFunction list \<Rightarrow> string \<Rightarrow> string list \<times> string list \<Rightarrow> string list \<times> string list" where
  \<comment> \<open>the body of the \<open>for\<close> loop over the tokens\<close>
  "getRPN_step funcs token st =
     (let (rpn, operators) = st
      in case getNumber token of
           Some v \<Rightarrow> (rpn @ [numberToString v], operators)
         | None \<Rightarrow>
             if isFunction funcs token \<noteq> None then (rpn, token # operators)
             else if isOperator token then
               (let (rpn1, operators1) = pop_operators token rpn operators
                in (rpn1, token # operators1))
             else if token = ''('' then (rpn, token # operators)
             else if token = '')'' then
               (let (rpn1, operators1) = pop_to_paren rpn operators;
                    operators2 =
                      (if operators1 \<noteq> [] \<and> hd operators1 = ''('' then tl operators1
                       else operators1)
                in if operators2 \<noteq> [] \<and> isFunction funcs (hd operators2) \<noteq> None
                   then (rpn1 @ [hd operators2], tl operators2)
                   else (rpn1, operators2))
             else (rpn @ [token], operators))"

definition getRPN :: "CustomFunction list \<Rightarrow> string list \<Rightarrow> string list" where
  "getRPN funcs tokens =
     (let (rpn, operators) = foldl (\<lambda>st token. getRPN_step funcs token st) ([], []) tokens
      in pop_remaining rpn operators)"

section \<open>\<open>Expression.h\<close>: the RPN evaluator\<close>

definition evalRPN_step ::
  "libm \<Rightarrow> CustomFunction list \<Rightarrow> Variable list \<Rightarrow> string \<Rightarrow> double list
     \<Rightarrow> double list option" where
  \<comment> \<open>the body of the \<open>for\<close> loop of \<open>evalRPN\<close> on the stack \<open>values\<close> (head is the top);
      \<open>None\<close> is the \<open>return result\<close> inside the loop\<close>
  "evalRPN_step lm funcs vars item values =
     (case getNumber item of
        Some v \<Rightarrow> Some (v # values)
      | None \<Rightarrow>
          (case isFunction funcs item of
             Some func \<Rightarrow>
               (if values = [] then None
                else Some (func (hd values) # tl values))
           | None \<Rightarrow>
               if isOperator item then
                 (if isBinaryOperator item \<and> 2 \<le> length values then
                    (let b = hd values; a = hd (tl values)
                     in Some (calculate lm a b item # tl (tl values)))
                  else if isUnaryOperator item \<and> 0 < length values then
                    Some (calculateUnary (hd values) item # tl values)
                  else Some values)
               else
                 (case isVariable item vars of
                    Some v \<Rightarrow> Some (v # values)
                  | None \<Rightarrow> Some values)))"

fun evalRPN_loop ::
  "libm \<Rightarrow> CustomFunction list \<Rightarrow> Variable list \<Rightarrow> string list \<Rightarrow> double list
     \<Rightarrow> double list option" where
  "evalRPN_loop lm funcs vars [] values = Some values"
| "evalRPN_loop lm funcs vars (item # items) values =
     (case evalRPN_step lm funcs vars item values of
        None \<Rightarrow> None
      | Some values1 \<Rightarrow> evalRPN_loop lm funcs vars items values1)"

definition evalRPN ::
  "libm \<Rightarrow> CustomFunction list \<Rightarrow> string list \<Rightarrow> Variable list \<Rightarrow> double" where
  "evalRPN lm funcs rpn vars =
     (let result = NaN
      in case evalRPN_loop lm funcs vars rpn [] of
           None \<Rightarrow> result
         | Some values \<Rightarrow> if length values = 1 then hd values else result)"

section \<open>\<open>Expression.h\<close>: the class \<open>Expression\<close>\<close>

text \<open>
  The members \<open>text\<close> and \<open>functions\<close> are the fields \<open>etext\<close> and \<open>efunctions\<close>.
\<close>

record Expression =
  etext :: string
  efunctions :: "CustomFunction list"
  tokens :: "string list"
  tokensStr :: string
  rpn :: "string list"
  rpnStr :: string
  balanced :: bool

definition join_tokens :: "string list \<Rightarrow> string" where
  \<comment> \<open>each element followed by a space\<close>
  "join_tokens ts = concat (map (\<lambda>t. t @ '' '') ts)"

definition Expression_funcs :: "string \<Rightarrow> CustomFunction list \<Rightarrow> Expression" where
  \<comment> \<open>the constructor \<open>Expression(string, vector<CustomFunction>)\<close>\<close>
  "Expression_funcs exprText funcs =
     (let t = filter (\<lambda>c. c \<noteq> CHR '' '') exprText;
          toks = getTokens t;
          r = getRPN funcs toks
      in \<lparr>etext = t, efunctions = funcs, tokens = toks, tokensStr = join_tokens toks,
          rpn = r, rpnStr = join_tokens r, balanced = checkParenthesis t\<rparr>)"

definition Expression_text :: "libm \<Rightarrow> string \<Rightarrow> Expression" where
  \<comment> \<open>the constructor \<open>Expression(string)\<close>\<close>
  "Expression_text lm exprText = Expression_funcs exprText (defaultFunctions lm)"

definition eval_vars :: "libm \<Rightarrow> Expression \<Rightarrow> Variable list \<Rightarrow> double" where
  \<comment> \<open>\<open>eval(vector<Variable>)\<close>\<close>
  "eval_vars lm ex vars = evalRPN lm (efunctions ex) (rpn ex) vars"

definition eval :: "libm \<Rightarrow> Expression \<Rightarrow> double" where
  \<comment> \<open>\<open>eval()\<close>\<close>
  "eval lm ex = eval_vars lm ex defaultVariables"

definition eval_x :: "libm \<Rightarrow> Expression \<Rightarrow> double \<Rightarrow> double" where
  \<comment> \<open>\<open>eval(double)\<close>\<close>
  "eval_x lm ex v =
     (let vars = defaultVariables;
          updated = (\<exists>w \<in> set vars. Variable.name w = ''x'');
          vars1 = map (\<lambda>w. if Variable.name w = ''x'' then w\<lparr>val := v\<rparr> else w) vars;
          vars2 = (if \<not> updated then vars1 @ [\<lparr>Variable.name = ''x'', val = v\<rparr>] else vars1)
      in eval_vars lm ex vars2)"

section \<open>An instance of the library for closed examples\<close>

text \<open>
  The theorems below hold for every \<open>libm\<close>. Where an example has to be a closed term,
  the parameter is \<open>example_libm\<close>: its power of a finite base with a natural exponent
  is the exact power, rounded once, which is what \<open>pow\<close> returns when the result is
  representable. The examples apply the library to no other arguments, and there it is
  left unspecified.
\<close>

definition pow_natural :: "double \<Rightarrow> double \<Rightarrow> double" where
  "pow_natural a b =
     (case (a, b) of
        (Finite s p, Finite False n) \<Rightarrow>
          if of_int \<lfloor>n\<rfloor> = n then to_double (s \<and> odd \<lfloor>n\<rfloor>) (ipow p \<lfloor>n\<rfloor>)
          else undefined a b
      | _ \<Rightarrow> undefined a b)"

definition example_libm :: libm where
  "example_libm =
     \<lparr>c_pow = pow_natural, c_sin = undefined, c_cos = undefined, c_tan = undefined,
      c_log = undefined, c_log10 = undefined, c_exp = undefined, c_sqrt = undefined,
      c_abs = undefined\<rparr>"

section \<open>Notions of the specification\<close>

text \<open>
  A text is unbalanced when some prefix of it, read left to right, has more \<open>)\<close> than
  \<open>(\<close>, or when the numbers of \<open>(\<close> and \<open>)\<close> in the whole text differ.
\<close>

definition unbalanced :: "string \<Rightarrow> bool" where
  "unbalanced t =
     ((\<exists>n \<in> {0..length t}. count_list (take n t) CHR ''('' < count_list (take n t) CHR '')'')
      \<or> count_list t CHR ''('' \<noteq> count_list t CHR '')'')"

text \<open>
  The loop of \<open>checkParenthesis\<close> as a recursion on the text still to read, and the
  nesting depth of a text; both serve the proofs only.
\<close>

definition paren_delta :: "char \<Rightarrow> int" where
  "paren_delta c = (if c = CHR ''('' then 1 else if c = CHR '')'' then - 1 else 0)"

fun paren_scan :: "string \<Rightarrow> int \<Rightarrow> int" where
  "paren_scan [] cnt = cnt"
| "paren_scan (c # cs) cnt = (if 0 \<le> cnt then paren_scan cs (cnt + paren_delta c) else cnt)"

definition paren_depth :: "string \<Rightarrow> int" where
  "paren_depth t = int (count_list t CHR ''('') - int (count_list t CHR '')'')"

text \<open>
  A plain name is a non-empty text without a space and without any of the characters at
  which the tokenizer splits. An operand token of value \<open>v\<close> is a plain name that is
  either a numeric literal, whose form in the RPN sequence is read back as \<open>v\<close>, or a
  variable: not read as a number, not named by the function table, and resolved to \<open>v\<close>
  by the variable list.
\<close>

definition plain_name :: "string \<Rightarrow> bool" where
  "plain_name nm = (nm \<noteq> [] \<and> (\<forall>c \<in> set nm. c \<notin> set '' ()+-*/^~''))"

definition rpn_form :: "string \<Rightarrow> string" where
  \<comment> \<open>what \<open>getRPN\<close> writes to the output for an operand\<close>
  "rpn_form nm = (case getNumber nm of Some x \<Rightarrow> numberToString x | None \<Rightarrow> nm)"

definition operand_token ::
  "CustomFunction list \<Rightarrow> Variable list \<Rightarrow> string \<Rightarrow> double \<Rightarrow> bool" where
  "operand_token funcs vars nm v =
     (plain_name nm
      \<and> (case getNumber nm of
            Some x \<Rightarrow> getNumber (numberToString x) = Some v
          | None \<Rightarrow> isFunction funcs nm = None \<and> isVariable nm vars = Some v))"

section \<open>The powers of the rounding functions\<close>

lemma ipow_power: "0 \<le> k \<Longrightarrow> ipow b k = b ^ nat k"
proof (induction b k rule: ipow.induct)
  case (1 b k)
  show ?case
  proof (cases "k = 0")
    case True
    then show ?thesis by (simp add: ipow.simps)
  next
    case False
    with 1(3) have pos: "0 < k" by simp
    then have half: "ipow (b * b) (k div 2) = (b * b) ^ nat (k div 2)"
      using 1(1,2) by (cases "even k") simp_all
    have sq: "(b * b) ^ nat (k div 2) = b ^ (2 * nat (k div 2))"
      by (simp add: power_mult power2_eq_square)
    show ?thesis
    proof (cases "even k")
      case True
      then have "2 * nat (k div 2) = nat k"
        using pos by (auto elim!: evenE simp: nat_mult_distrib)
      with True pos half sq show ?thesis
        by (subst ipow.simps) simp
    next
      case False
      then have "Suc (2 * nat (k div 2)) = nat k"
        using pos by (auto elim!: oddE simp: nat_mult_distrib nat_add_distrib)
      then have "b * b ^ (2 * nat (k div 2)) = b ^ nat k"
        by (metis power_Suc)
      with False pos half sq show ?thesis
        by (subst ipow.simps) simp
    qed
  qed
qed

lemma pow2_power: "0 \<le> k \<Longrightarrow> pow2 k = 2 ^ nat k"
  by (simp add: pow2_def ipow_power)

lemma pow10_power: "0 \<le> k \<Longrightarrow> pow10 k = 10 ^ nat k"
  by (simp add: pow10_def ipow_power)

section \<open>The balance check\<close>

lemma checkParenthesis_loop_scan:
  "pos \<le> length t \<Longrightarrow> checkParenthesis_loop t pos cnt = paren_scan (drop pos t) cnt"
proof (induction t pos cnt rule: checkParenthesis_loop.induct)
  case (1 t pos cnt)
  show ?case
  proof (cases "pos < length t \<and> 0 \<le> cnt")
    case True
    then have d: "drop pos t = t ! pos # drop (Suc pos) t"
      by (simp add: Cons_nth_drop_Suc)
    from True 1 have "checkParenthesis_loop t (pos + 1) (cnt + paren_delta (t ! pos))
        = paren_scan (drop (pos + 1) t) (cnt + paren_delta (t ! pos))"
      by (auto simp: paren_delta_def)
    moreover have "checkParenthesis_loop t pos cnt
        = checkParenthesis_loop t (pos + 1) (cnt + paren_delta (t ! pos))"
      using True by (subst checkParenthesis_loop.simps) (simp add: paren_delta_def)
    ultimately show ?thesis using True d by simp
  next
    case False
    then have "checkParenthesis_loop t pos cnt = cnt"
      by (subst checkParenthesis_loop.simps) auto
    moreover have "paren_scan (drop pos t) cnt = cnt"
      using False 1(2) by (cases "drop pos t") auto
    ultimately show ?thesis by simp
  qed
qed

lemma paren_depth_Cons: "paren_depth (c # cs) = paren_delta c + paren_depth cs"
  by (auto simp: paren_depth_def paren_delta_def)

lemma paren_depth_Nil: "paren_depth [] = 0"
  by (simp add: paren_depth_def)

lemma all_le_Suc: "(\<forall>n \<le> Suc k. P n) \<longleftrightarrow> P 0 \<and> (\<forall>m \<le> k. P (Suc m))"
  by (metis Suc_le_mono le0 not0_implies_Suc)

lemma paren_scan_zero:
  "paren_scan t cnt = 0 \<longleftrightarrow>
     (\<forall>n \<le> length t. 0 \<le> cnt + paren_depth (take n t)) \<and> cnt + paren_depth t = 0"
proof (induction t arbitrary: cnt)
  case Nil
  show ?case by (auto simp: paren_depth_Nil)
next
  case (Cons c cs)
  show ?case
  proof (cases "0 \<le> cnt")
    case True
    then show ?thesis
      by (simp add: Cons.IH all_le_Suc paren_depth_Cons paren_depth_Nil add.assoc)
  next
    case False
    then have "\<not> (\<forall>n \<le> length (c # cs). 0 \<le> cnt + paren_depth (take n (c # cs)))"
      by (auto simp: paren_depth_Nil intro!: exI [of _ 0])
    with False show ?thesis by simp
  qed
qed

lemma unbalanced_iff: "unbalanced t \<longleftrightarrow> paren_scan t 0 \<noteq> 0"
proof -
  have "(\<exists>n \<in> {0..length t}. count_list (take n t) CHR ''('' < count_list (take n t) CHR '')'')
      \<longleftrightarrow> \<not> (\<forall>n \<le> length t. 0 \<le> paren_depth (take n t))"
    by (auto simp: paren_depth_def not_le)
  moreover have "count_list t CHR ''('' \<noteq> count_list t CHR '')'' \<longleftrightarrow> paren_depth t \<noteq> 0"
    by (auto simp: paren_depth_def)
  ultimately show ?thesis
    unfolding unbalanced_def using paren_scan_zero [of t 0] by auto
qed

lemma paren_scan_negative: "cnt < 0 \<Longrightarrow> paren_scan t cnt = cnt"
  by (cases t) auto

lemma paren_scan_filter:
  "paren_scan (filter (\<lambda>c. c \<noteq> CHR '' '') t) cnt = paren_scan t cnt"
  by (induction t arbitrary: cnt) (auto simp: paren_delta_def paren_scan_negative)

lemma checkParenthesis_filter:
  "checkParenthesis (filter (\<lambda>c. c \<noteq> CHR '' '') t) \<longleftrightarrow> \<not> unbalanced t"
  by (simp add: checkParenthesis_def checkParenthesis_loop_scan paren_scan_filter unbalanced_iff)

lemma paren_scan_no_paren:
  assumes "\<forall>c \<in> set t. c \<noteq> CHR ''('' \<and> c \<noteq> CHR '')''"
  shows "paren_scan t 0 = 0"
  using assms by (induction t) (simp_all add: paren_delta_def)

lemma getRPN_Nil: "getRPN funcs [] = []"
  by (simp add: getRPN_def)

lemma evalRPN_Nil: "evalRPN lm funcs [] vars = NaN"
  by (simp add: evalRPN_def)

text \<open>
  Claim C2. For every input text of fewer than \<open>2^31\<close> characters (so that the \<open>int\<close>
  counter of \<open>checkParenthesis\<close> cannot overflow) whose parentheses are unbalanced, and
  for every function table, the constructed expression has an empty token sequence and
  an empty RPN sequence, its flag \<open>balanced\<close> is false, and \<open>eval()\<close>, \<open>eval(double)\<close> and \<open>eval(vector<Variable>)\<close> all
  return NaN, whatever their arguments.
\<close>

theorem unbalanced_yields_undefined:
  assumes "length exprText < 2 ^ 31" and "unbalanced exprText"
  shows "tokens (Expression_funcs exprText funcs) = []
       \<and> rpn (Expression_funcs exprText funcs) = []
       \<and> \<not> balanced (Expression_funcs exprText funcs)
       \<and> eval lm (Expression_funcs exprText funcs) = NaN
       \<and> eval_x lm (Expression_funcs exprText funcs) x = NaN
       \<and> eval_vars lm (Expression_funcs exprText funcs) vars = NaN"
  using assms(2)
  by (simp add: Expression_funcs_def Let_def getTokens_def checkParenthesis_filter getRPN_Nil
      eval_def eval_x_def eval_vars_def evalRPN_Nil)

theorem unbalanced_yields_undefined_witness:
  "length ''(1+2'' < 2 ^ 31 \<and> unbalanced ''(1+2''
   \<and> tokens (Expression_funcs ''(1+2'' (defaultFunctions example_libm)) = []
   \<and> rpn (Expression_funcs ''(1+2'' (defaultFunctions example_libm)) = []
   \<and> \<not> balanced (Expression_funcs ''(1+2'' (defaultFunctions example_libm))
   \<and> eval example_libm (Expression_funcs ''(1+2'' (defaultFunctions example_libm)) = NaN
   \<and> eval_x example_libm (Expression_funcs ''(1+2'' (defaultFunctions example_libm))
        (Finite False 1) = NaN
   \<and> eval_vars example_libm (Expression_funcs ''(1+2'' (defaultFunctions example_libm)) [] = NaN"
proof -
  have h1: "length ''(1+2'' < 2 ^ 31" by simp
  have h2: "unbalanced ''(1+2''" by (simp add: unbalanced_def)
  from unbalanced_yields_undefined [OF h1 h2] show ?thesis using h1 h2 by simp
qed

section \<open>Plain names and the tokenizer\<close>

lemma plain_name_chars:
  assumes "plain_name nm"
  shows "\<forall>c \<in> set nm. c \<notin> set ''()+-*/^~''" and "\<forall>c \<in> set nm. c \<noteq> CHR '' ''"
proof -
  have a: "\<forall>c \<in> set nm. c \<notin> set '' ()+-*/^~''"
    using assms unfolding plain_name_def by (rule conjunct2)
  show "\<forall>c \<in> set nm. c \<notin> set ''()+-*/^~''"
    using a by (metis list.set_intros(2))
  show "\<forall>c \<in> set nm. c \<noteq> CHR '' ''"
    using a by (metis list.set_intros(1))
qed

lemma plain_name_not_special:
  assumes "plain_name nm"
  shows "\<not> isOperator nm" and "nm \<noteq> ''(''" and "nm \<noteq> '')''"
proof -
  have a: "\<forall>c \<in> set nm. c \<notin> set ''()+-*/^~''"
    by (rule plain_name_chars(1) [OF assms])
  show "\<not> isOperator nm"
  proof
    assume "isOperator nm"
    then consider "nm = ''+''" | "nm = ''-''" | "nm = ''*''" | "nm = ''/''" | "nm = ''^''"
      | "nm = ''~''"
      unfolding isOperator_def by blast
    then show False using a by cases simp_all
  qed
  show "nm \<noteq> ''(''" using a by (cases "nm = ''(''") simp_all
  show "nm \<noteq> '')''" using a by (cases "nm = '')''") simp_all
qed

lemma plain_name_filter:
  assumes "plain_name nm"
  shows "filter (\<lambda>c. c \<noteq> CHR '' '') nm = nm"
  using plain_name_chars(2) [OF assms] by (simp add: filter_id_conv)

lemma plain_name_no_paren:
  assumes "plain_name nm"
  shows "\<forall>c \<in> set nm. c \<noteq> CHR ''('' \<and> c \<noteq> CHR '')''"
  using plain_name_chars(1) [OF assms] by (metis list.set_intros(1) list.set_intros(2))

lemma find_first_of_delimiter:
  assumes "\<forall>c \<in> set a. c \<notin> set chars" and "d \<in> set chars"
  shows "find_first_of (pre @ a @ d # rest) chars (length pre) = Some (length pre + length a)"
proof -
  have "takeWhile (\<lambda>c. c \<notin> set chars) (a @ d # rest) = a"
    using assms by (simp add: takeWhile_tail)
  moreover have "\<exists>c \<in> set (a @ d # rest). c \<in> set chars"
    using assms(2) by auto
  ultimately show ?thesis
    by (simp add: find_first_of_def)
qed

lemma find_first_of_none:
  assumes "\<forall>c \<in> set a. c \<notin> set chars"
  shows "find_first_of (pre @ a) chars (length pre) = None"
  using assms by (simp add: find_first_of_def)

lemma getTokens_loop_delimiter:
  assumes "\<forall>c \<in> set a. c \<notin> set ''()+-*/^~''" and "d \<in> set ''()+-*/^~''"
  shows "getTokens_loop (pre @ a @ d # rest) (length pre) toks =
           getTokens_loop (pre @ a @ d # rest) (length pre + length a + 1)
             ((if a = [] then toks else toks @ [a]) @ [[d]])"
proof -
  let ?t = "pre @ a @ d # rest"
  have nth: "?t ! (length pre + length a) = d"
    by (metis append.assoc length_append nth_append_length)
  have sub: "substr ?t (length pre) (length pre + length a - length pre) = a"
    by (simp add: substr_def)
  show ?thesis
    by (subst getTokens_loop.simps)
       (simp only: find_first_of_delimiter [OF assms] option.case Let_def nth sub
          length_greater_0_conv if_not_P split: if_splits, simp)
qed

lemma getTokens_loop_end:
  assumes "\<forall>c \<in> set a. c \<notin> set ''()+-*/^~''"
  shows "getTokens_loop (pre @ a) (length pre) toks = (if a = [] then toks else toks @ [a])"
  by (subst getTokens_loop.simps)
     (simp only: find_first_of_none [OF assms] option.case Let_def, simp)

lemma tokens_single:
  assumes "plain_name t"
  shows "getTokens t = [t]"
proof -
  have ne: "t \<noteq> []"
    using assms unfolding plain_name_def by (rule conjunct1)
  have cp: "checkParenthesis t"
    using plain_name_no_paren [OF assms]
    by (simp only: checkParenthesis_def checkParenthesis_loop_scan le0 drop_0
        paren_scan_no_paren)
  have "getTokens_loop t 0 [] = [t]"
    using getTokens_loop_end [OF plain_name_chars(1) [OF assms], of "[]" "[]"] ne by simp
  with cp show ?thesis by (simp add: getTokens_def)
qed

lemma tokens_power_chain:
  assumes "plain_name a" and "plain_name b" and "plain_name c"
  shows "getTokens (a @ ''^'' @ b @ ''^'' @ c) = [a, ''^'', b, ''^'', c]"
proof -
  let ?t = "a @ ''^'' @ b @ ''^'' @ c"
  note ca = plain_name_chars(1) [OF assms(1)]
  note cb = plain_name_chars(1) [OF assms(2)]
  note cc = plain_name_chars(1) [OF assms(3)]
  have ne: "a \<noteq> []" "b \<noteq> []" "c \<noteq> []"
    using assms unfolding plain_name_def by blast+
  have hat: "CHR ''^'' \<in> set ''()+-*/^~''" by simp
  have "\<forall>x \<in> set ''^''. x \<noteq> CHR ''('' \<and> x \<noteq> CHR '')''"
    by simp
  then have "\<forall>x \<in> set ?t. x \<noteq> CHR ''('' \<and> x \<noteq> CHR '')''"
    using plain_name_no_paren [OF assms(1)] plain_name_no_paren [OF assms(2)]
      plain_name_no_paren [OF assms(3)]
    by (simp only: set_append ball_Un)
  then have cp: "checkParenthesis ?t"
    by (simp only: checkParenthesis_def checkParenthesis_loop_scan le0 drop_0
        paren_scan_no_paren)
  have 1: "getTokens_loop ?t 0 [] = getTokens_loop ?t (length a + 1) [a, ''^'']"
    using getTokens_loop_delimiter [OF ca hat, of "[]" "b @ ''^'' @ c" "[]"] ne by simp
  have 2: "getTokens_loop ?t (length a + 1) [a, ''^'']
         = getTokens_loop ?t (length a + 1 + length b + 1) [a, ''^'', b, ''^'']"
    using getTokens_loop_delimiter [OF cb hat, of "a @ ''^''" c "[a, ''^'']"] ne by simp
  have 3: "getTokens_loop ?t (length a + 1 + length b + 1) [a, ''^'', b, ''^'']
         = [a, ''^'', b, ''^'', c]"
    using getTokens_loop_end [OF cc, of "a @ ''^'' @ b @ ''^''" "[a, ''^'', b, ''^'']"] ne
    by simp
  from cp 1 2 3 show ?thesis by (simp add: getTokens_def)
qed

lemma tokens_double_negation:
  assumes "plain_name a"
  shows "getTokens (''~~'' @ a) = [''~'', ''~'', a]"
proof -
  let ?t = "''~~'' @ a"
  note ca = plain_name_chars(1) [OF assms]
  have ne: "a \<noteq> []"
    using assms unfolding plain_name_def by blast
  have tilde: "CHR ''~'' \<in> set ''()+-*/^~''" by simp
  have e: "\<forall>c \<in> set []. c \<notin> set ''()+-*/^~''" by simp
  have "\<forall>x \<in> set ''~~''. x \<noteq> CHR ''('' \<and> x \<noteq> CHR '')''"
    by simp
  then have "\<forall>x \<in> set ?t. x \<noteq> CHR ''('' \<and> x \<noteq> CHR '')''"
    using plain_name_no_paren [OF assms]
    by (simp only: set_append ball_Un)
  then have cp: "checkParenthesis ?t"
    by (simp only: checkParenthesis_def checkParenthesis_loop_scan le0 drop_0
        paren_scan_no_paren)
  have 1: "getTokens_loop ?t 0 [] = getTokens_loop ?t 1 [''~'']"
    using getTokens_loop_delimiter [OF e tilde, of "[]" "''~'' @ a" "[]"] by simp
  have 2: "getTokens_loop ?t 1 [''~''] = getTokens_loop ?t 2 [''~'', ''~'']"
    using getTokens_loop_delimiter [OF e tilde, of "''~''" a "[''~'']"]
    by (simp add: numeral_2_eq_2)
  have 3: "getTokens_loop ?t 2 [''~'', ''~''] = [''~'', ''~'', a]"
    using getTokens_loop_end [OF ca, of "''~~''" "[''~'', ''~'']"] ne
    by (simp add: numeral_2_eq_2)
  from cp 1 2 3 show ?thesis by (simp add: getTokens_def)
qed

section \<open>The converter and the evaluator, one step at a time\<close>

lemma getNumber_operator: "isOperator o1 \<Longrightarrow> getNumber o1 = None"
  unfolding isOperator_def
  by (elim disjE; hypsubst; code_simp)

lemma binop_isOperator: "isBinaryOperator item \<Longrightarrow> isOperator item"
  by (auto simp: isBinaryOperator_def isOperator_def)

lemma operator_facts:
  "isOperator ''^''" "isBinaryOperator ''^''" "precedence ''^'' = 3" "\<not> isLeftAssociative ''^''"
  "isOperator ''~''" "precedence ''~'' = 3" "\<not> isLeftAssociative ''~''"
  by (simp_all add: isOperator_def isBinaryOperator_def precedence_def isLeftAssociative_def)

lemma getRPN_step_variable:
  assumes "getNumber nm = None" and "isFunction funcs nm = None" and "plain_name nm"
  shows "getRPN_step funcs nm (out, ops) = (out @ [nm], ops)"
  using assms(1,2) plain_name_not_special [OF assms(3)]
  by (simp add: getRPN_step_def)

lemma getRPN_step_operator:
  assumes "isOperator o1" and "isFunction funcs o1 = None"
  shows "getRPN_step funcs o1 (out, ops) =
           (let (out1, ops1) = pop_operators o1 out ops in (out1, o1 # ops1))"
  using assms getNumber_operator [OF assms(1)]
  by (simp add: getRPN_step_def)

lemma getRPN_step_pop:
  assumes "isOperator o1" and "isFunction funcs o1 = None"
  shows "getRPN_step funcs o1 (out, o2 # ops) =
     (if o2 \<noteq> ''(''
         \<and> (precedence o2 > precedence o1
            \<or> (precedence o2 = precedence o1 \<and> isLeftAssociative o1))
      then getRPN_step funcs o1 (out @ [o2], ops)
      else (out, o1 # o2 # ops))"
  by (simp add: getRPN_step_operator [OF assms])

lemma evalRPN_step_number:
  assumes "getNumber item = Some v"
  shows "evalRPN_step lm funcs vars item vs = Some (v # vs)"
  using assms by (simp add: evalRPN_step_def)

lemma evalRPN_step_binop:
  assumes "isBinaryOperator item" and "isFunction funcs item = None"
  shows "evalRPN_step lm funcs vars item vs =
           (if 2 \<le> length vs then Some (calculate lm (hd (tl vs)) (hd vs) item # tl (tl vs))
            else Some vs)"
proof -
  have "\<not> isUnaryOperator item"
    using assms(1) by (auto simp: isBinaryOperator_def isUnaryOperator_def)
  then show ?thesis
    using assms getNumber_operator [OF binop_isOperator [OF assms(1)]]
      binop_isOperator [OF assms(1)]
    by (simp add: evalRPN_step_def)
qed

lemma evalRPN_step_negation:
  assumes "isFunction funcs ''~'' = None"
  shows "evalRPN_step lm funcs vars ''~'' (v # vs) = Some (dmul (Finite True 1) v # vs)"
  using assms getNumber_operator [OF operator_facts(5)]
  by (simp add: evalRPN_step_def isOperator_def isBinaryOperator_def isUnaryOperator_def
      calculateUnary_def)

lemma evalRPN_step_function:
  assumes "getNumber item = None" and "isFunction funcs item = Some fn"
  shows "evalRPN_step lm funcs vars item vs =
           (if vs = [] then None else Some (fn (hd vs) # tl vs))"
  using assms by (simp add: evalRPN_step_def)

lemma evalRPN_step_variable:
  assumes "getNumber nm = None" and "isFunction funcs nm = None" and "plain_name nm"
    and "isVariable nm vars = Some v"
  shows "evalRPN_step lm funcs vars nm vs = Some (v # vs)"
  using assms(1,2,4) plain_name_not_special [OF assms(3)]
  by (simp add: evalRPN_step_def)

lemma evalRPN_loop_append:
  "evalRPN_loop lm funcs vars (pre @ post) vs =
     (case evalRPN_loop lm funcs vars pre vs of
        None \<Rightarrow> None
      | Some vs' \<Rightarrow> evalRPN_loop lm funcs vars post vs')"
  by (induction pre arbitrary: vs) (simp_all split: option.splits)

text \<open>
  Claim C5. In \<open>evalRPN\<close> a binary operator token (one of \<open>+ - * / ^\<close> that the function
  table does not name, so that it reaches the operator branch) met with at least two
  values on the stack pops \<open>b\<close>, the top, then \<open>a\<close>, and pushes \<open>calculate(a, b, item)\<close>,
  which is \<open>a + b\<close>, \<open>a - b\<close>, \<open>a * b\<close>, \<open>a / b\<close> or \<open>pow(a, b)\<close>; met with fewer than
  two values it is skipped: the loop goes on with the remaining tokens and the same stack.
\<close>

theorem binary_operator_step:
  assumes "isBinaryOperator item" and "isFunction funcs item = None"
  shows "evalRPN_loop lm funcs vars (item # items) (b # a # rest)
           = evalRPN_loop lm funcs vars items (calculate lm a b item # rest)
       \<and> (length vs < 2 \<longrightarrow>
            evalRPN_loop lm funcs vars (item # items) vs = evalRPN_loop lm funcs vars items vs)
       \<and> calculate lm a b ''+'' = dadd a b \<and> calculate lm a b ''-'' = dsub a b
       \<and> calculate lm a b ''*'' = dmul a b \<and> calculate lm a b ''/'' = ddiv a b
       \<and> calculate lm a b ''^'' = c_pow lm a b"
  by (simp add: evalRPN_step_binop [OF assms] calculate_def)

theorem binary_operator_step_witness:
  "isBinaryOperator ''-''
   \<and> isFunction (defaultFunctions example_libm) ''-'' = None
   \<and> evalRPN_loop example_libm (defaultFunctions example_libm) [] [''-'']
        [Finite False 1, Finite False 3] = Some [Finite False 2]
   \<and> length [Finite False 1] < 2
   \<and> evalRPN_loop example_libm (defaultFunctions example_libm) [] [''-''] [Finite False 1]
        = Some [Finite False 1]"
proof -
  have h1: "isBinaryOperator ''-''"
    by (simp add: isBinaryOperator_def)
  have h2: "isFunction (defaultFunctions example_libm) ''-'' = None"
    by (simp add: defaultFunctions_def)
  have c: "calculate example_libm (Finite False 3) (Finite False 1) ''-'' = Finite False 2"
    by code_simp
  from binary_operator_step [OF h1 h2, where lm = example_libm and vars = "[]"
      and items = "[]" and b = "Finite False 1" and a = "Finite False 3" and rest = "[]"
      and vs = "[Finite False 1]"]
  show ?thesis using h1 h2 c by simp
qed

text \<open>
  Claim C6. In \<open>evalRPN\<close> a function-name token (a token that is not read as a number and
  that the function table names) met with an empty stack makes the loop return at once:
  whatever tokens remain, the result of \<open>evalRPN\<close> is the NaN of \<open>result\<close>. Met with a
  non-empty stack it pops one value, applies the function and pushes the result.
\<close>

theorem function_token_step:
  assumes "getNumber item = None" and "isFunction funcs item = Some fn"
  shows "evalRPN_loop lm funcs vars (item # items) [] = None
       \<and> (evalRPN_loop lm funcs vars pre [] = Some [] \<longrightarrow>
            evalRPN lm funcs (pre @ item # items) vars = NaN)
       \<and> evalRPN_loop lm funcs vars (item # items) (v # vs)
           = evalRPN_loop lm funcs vars items (fn v # vs)"
  by (simp add: evalRPN_def evalRPN_loop_append evalRPN_step_function [OF assms])

theorem function_token_step_witness:
  "getNumber ''neg'' = None
   \<and> isFunction [\<lparr>CustomFunction.name = ''neg'', f = dneg\<rparr>] ''neg'' = Some dneg
   \<and> evalRPN_loop example_libm [\<lparr>CustomFunction.name = ''neg'', f = dneg\<rparr>] [] [] [] = Some []
   \<and> evalRPN example_libm [\<lparr>CustomFunction.name = ''neg'', f = dneg\<rparr>] [''neg'', ''1''] [] = NaN
   \<and> evalRPN_loop example_libm [\<lparr>CustomFunction.name = ''neg'', f = dneg\<rparr>] [] [''neg'']
        [Finite False 3] = Some [Finite True 3]"
proof -
  let ?fs = "[\<lparr>CustomFunction.name = ''neg'', f = dneg\<rparr>]"
  have h1: "getNumber ''neg'' = None"
    by code_simp
  have h2: "isFunction ?fs ''neg'' = Some dneg"
    by simp
  from function_token_step [OF h1 h2, where lm = example_libm and vars = "[]"
      and items = "[''1'']" and pre = "[]" and v = "Finite False 3" and vs = "[]"]
    function_token_step [OF h1 h2, where lm = example_libm and vars = "[]"
      and items = "[]" and pre = "[]" and v = "Finite False 3" and vs = "[]"]
  show ?thesis using h1 h2 by simp
qed

text \<open>
  Claim C7. When the loop of \<open>evalRPN\<close> has passed over all tokens and leaves the stack
  \<open>vs\<close>, the result is the top of the stack if the stack holds exactly one value, and the
  NaN of \<open>result\<close> in every other case, with no value or with two or more.
\<close>

theorem evalRPN_final_result:
  assumes "evalRPN_loop lm funcs vars items [] = Some vs"
  shows "evalRPN lm funcs items vars = (if length vs = 1 then hd vs else NaN)"
  using assms by (simp add: evalRPN_def)

theorem evalRPN_final_result_witness:
  "evalRPN_loop example_libm [] [] [''3'', ''1''] [] = Some [Finite False 1, Finite False 3]
   \<and> evalRPN example_libm [] [''3'', ''1''] [] = NaN"
proof -
  have h: "evalRPN_loop example_libm [] [] [''3'', ''1''] []
             = Some [Finite False 1, Finite False 3]"
    by code_simp
  from evalRPN_final_result [OF h] show ?thesis using h by simp
qed

section \<open>Variables and the default constants\<close>

lemma isVariable_loop_plain:
  assumes "\<forall>v \<in> set vars. ''~'' @ Variable.name v \<noteq> nm"
  shows "isVariable_loop nm vars =
           map_option val (find (\<lambda>v. Variable.name v = nm) vars)"
  using assms by (induction vars) auto

lemma isVariable_constant:
  "isVariable ''pi'' vs = map_option val (find (\<lambda>v. Variable.name v = ''pi'') vs)"
  "isVariable ''e'' vs = map_option val (find (\<lambda>v. Variable.name v = ''e'') vs)"
  by (simp_all add: isVariable_def isOperator_def isVariable_loop_plain)

lemma constant_tokens:
  "getNumber ''pi'' = None" "getNumber ''e'' = None" "plain_name ''pi''" "plain_name ''e''"
  by code_simp+

lemma eval_vars_name:
  assumes "getNumber nm = None" and "isFunction funcs nm = None" and "plain_name nm"
  shows "eval_vars lm (Expression_funcs nm funcs) vars =
           (case isVariable nm vars of Some v \<Rightarrow> v | None \<Rightarrow> NaN)"
proof -
  note noop = plain_name_not_special [OF assms(3)]
  have r: "getRPN funcs [nm] = [nm]"
    using assms(1,2) noop by (simp add: getRPN_def getRPN_step_def)
  have "evalRPN lm funcs [nm] vars = (case isVariable nm vars of Some v \<Rightarrow> v | None \<Rightarrow> NaN)"
    using assms(1,2) noop by (simp add: evalRPN_def evalRPN_step_def split: option.splits)
  then show ?thesis
    by (simp add: eval_vars_def Expression_funcs_def Let_def plain_name_filter [OF assms(3)]
        tokens_single [OF assms(3)] r)
qed

text \<open>
  Claim C1, as amended. \<open>eval(vector<Variable>)\<close> resolves names in the caller's list
  only: it runs the evaluator on the compiled RPN sequence with that list as it is, and
  the default constants are not added to it. The expression \<open>pi\<close> (and likewise
  \<open>e\<close>) evaluated with a list returns the value of the first entry of that name in the
  list, and NaN when the list has no such entry. The defaults are what \<open>eval()\<close> and
  \<open>eval(double)\<close> resolve \<open>pi\<close> and \<open>e\<close> to.
\<close>

theorem eval_vars_uses_only_caller_list:
  "eval_vars lm ex vars = evalRPN lm (efunctions ex) (rpn ex) vars
   \<and> eval_vars lm (Expression_text lm ''pi'') vars =
     (case find (\<lambda>v. Variable.name v = ''pi'') vars of Some v \<Rightarrow> val v | None \<Rightarrow> NaN)
   \<and> eval_vars lm (Expression_text lm ''e'') vars =
     (case find (\<lambda>v. Variable.name v = ''e'') vars of Some v \<Rightarrow> val v | None \<Rightarrow> NaN)
   \<and> eval lm (Expression_text lm ''pi'') = val (defaultVariables ! 0)
   \<and> eval lm (Expression_text lm ''e'') = val (defaultVariables ! 1)
   \<and> eval_x lm (Expression_text lm ''pi'') x = val (defaultVariables ! 0)
   \<and> eval_x lm (Expression_text lm ''e'') x = val (defaultVariables ! 1)"
proof -
  have fp: "isFunction (defaultFunctions lm) ''pi'' = None"
    and fe: "isFunction (defaultFunctions lm) ''e'' = None"
    by (simp_all add: defaultFunctions_def)
  have p: "eval_vars lm (Expression_text lm ''pi'') vs =
      (case find (\<lambda>v. Variable.name v = ''pi'') vs of Some v \<Rightarrow> val v | None \<Rightarrow> NaN)" for vs
    unfolding Expression_text_def
    by (simp add: eval_vars_name [OF constant_tokens(1) fp constant_tokens(3)]
        isVariable_constant split: option.splits)
  have e: "eval_vars lm (Expression_text lm ''e'') vs =
      (case find (\<lambda>v. Variable.name v = ''e'') vs of Some v \<Rightarrow> val v | None \<Rightarrow> NaN)" for vs
    unfolding Expression_text_def
    by (simp add: eval_vars_name [OF constant_tokens(2) fe constant_tokens(4)]
        isVariable_constant split: option.splits)
  show ?thesis
    by (simp add: p e eval_def eval_x_def defaultVariables_def)
       (simp add: eval_vars_def)
qed

text \<open>
  The claim as stated fails: with the list \<open>[{a: 1.0}]\<close> the expression \<open>pi\<close> evaluates
  to NaN, not to the default value of \<open>pi\<close>.
\<close>

theorem eval_vars_pi_without_defaults:
  "eval_vars example_libm (Expression_text example_libm ''pi'')
     [\<lparr>Variable.name = ''a'', val = Finite False 1\<rparr>] = NaN
   \<and> val (defaultVariables ! 0) = Finite False (13176795 / 4194304)"
  by code_simp

text \<open>
  Claim C9, as amended. For every variable list and every non-empty name: if the first
  entry of the list that is named either \<open>~name\<close> or \<open>name\<close> is an entry \<open>{name, v}\<close>,
  then \<open>isVariable\<close> applied to the token \<open>~name\<close> succeeds and yields \<open>-1.0 * v\<close>.
\<close>

theorem isVariable_negated_name:
  assumes "nm \<noteq> []"
    and "find (\<lambda>w. Variable.name w = ''~'' @ nm \<or> Variable.name w = nm) vars = Some w"
    and "Variable.name w = nm"
  shows "isVariable (''~'' @ nm) vars = Some (dmul (Finite True 1) (val w))"
proof -
  have "isVariable_loop (''~'' @ nm) vars = Some (dmul (Finite True 1) (val w))"
    using assms(2,3) by (induction vars) (auto split: if_splits)
  moreover have "\<not> isOperator (''~'' @ nm)"
    using assms(1) by (cases nm) (simp_all add: isOperator_def)
  ultimately show ?thesis by (simp add: isVariable_def)
qed

theorem isVariable_negated_name_witness:
  "''pi'' \<noteq> []
   \<and> find (\<lambda>w. Variable.name w = ''~'' @ ''pi'' \<or> Variable.name w = ''pi'') defaultVariables
       = Some (defaultVariables ! 0)
   \<and> Variable.name (defaultVariables ! 0) = ''pi''
   \<and> isVariable ''~pi'' defaultVariables = Some (Finite True (13176795 / 4194304))"
proof -
  have h1: "''pi'' \<noteq> []" by simp
  have h2: "find (\<lambda>w. Variable.name w = ''~'' @ ''pi'' \<or> Variable.name w = ''pi'') defaultVariables
       = Some (defaultVariables ! 0)"
    by (simp add: defaultVariables_def)
  have h3: "Variable.name (defaultVariables ! 0) = ''pi''"
    by (simp add: defaultVariables_def)
  have v: "dmul (Finite True 1) (val (defaultVariables ! 0)) = Finite True (13176795 / 4194304)"
    by code_simp
  from isVariable_negated_name [OF h1 h2 h3] show ?thesis using h1 h2 h3 v by simp
qed

text \<open>
  The claim as stated fails, since the loop of \<open>isVariable\<close> returns at the first entry
  that matches and operators are refused before the loop: with the entries \<open>{pi, 1}\<close> and
  \<open>{pi, 2}\<close> the token \<open>~pi\<close> yields \<open>-1\<close>, not the negation of the second entry's value;
  with the entries \<open>{~pi, 5}\<close> and \<open>{pi, 3}\<close> it yields \<open>5\<close>; and with an entry of empty name
  the token \<open>~\<close> is not resolved at all.
\<close>

theorem isVariable_negated_name_shadowed:
  "isVariable ''~pi''
     [\<lparr>Variable.name = ''pi'', val = Finite False 1\<rparr>, \<lparr>Variable.name = ''pi'', val = Finite False 2\<rparr>]
     = Some (Finite True 1)
   \<and> dmul (Finite True 1) (Finite False 2) = Finite True 2
   \<and> isVariable ''~pi''
     [\<lparr>Variable.name = ''~pi'', val = Finite False 5\<rparr>, \<lparr>Variable.name = ''pi'', val = Finite False 3\<rparr>]
     = Some (Finite False 5)
   \<and> isVariable (''~'' @ []) [\<lparr>Variable.name = [], val = Finite False 1\<rparr>] = None"
  by code_simp

section \<open>The constructor\<close>

text \<open>
  Claim C8, as amended. Before tokenization the constructor removes every space
  character \<open>' '\<close> from the input text, and nothing else: for every input text,
  compiling it gives the same token sequence, RPN sequence and evaluation results as
  compiling the text with every space deleted.
\<close>

theorem only_spaces_are_stripped:
  "etext (Expression_funcs exprText funcs) = filter (\<lambda>c. c \<noteq> CHR '' '') exprText
   \<and> tokens (Expression_funcs (filter (\<lambda>c. c \<noteq> CHR '' '') exprText) funcs)
       = tokens (Expression_funcs exprText funcs)
   \<and> rpn (Expression_funcs (filter (\<lambda>c. c \<noteq> CHR '' '') exprText) funcs)
       = rpn (Expression_funcs exprText funcs)
   \<and> eval lm (Expression_funcs (filter (\<lambda>c. c \<noteq> CHR '' '') exprText) funcs)
       = eval lm (Expression_funcs exprText funcs)
   \<and> eval_x lm (Expression_funcs (filter (\<lambda>c. c \<noteq> CHR '' '') exprText) funcs) x
       = eval_x lm (Expression_funcs exprText funcs) x
   \<and> eval_vars lm (Expression_funcs (filter (\<lambda>c. c \<noteq> CHR '' '') exprText) funcs) vars
       = eval_vars lm (Expression_funcs exprText funcs) vars"
proof -
  have "Expression_funcs (filter (\<lambda>c. c \<noteq> CHR '' '') exprText) funcs
      = Expression_funcs exprText funcs"
    by (simp add: Expression_funcs_def)
  then show ?thesis
    by (simp add: Expression_funcs_def Let_def)
qed

text \<open>
  The claim as stated fails on a tab: the text \<open>x\<close> followed by a tab compiles to the
  single token \<open>x<TAB>\<close>, which no variable list resolves as \<open>x\<close>, whereas the text with
  its white space deleted compiles to the token \<open>x\<close>.
\<close>

theorem tab_is_not_stripped:
  "tokens (Expression_text example_libm [CHR ''x'', CHR 0x09]) = [[CHR ''x'', CHR 0x09]]
   \<and> tokens (Expression_text example_libm (filter (\<lambda>c. \<not> isspace c) [CHR ''x'', CHR 0x09]))
       = [''x'']
   \<and> eval_x example_libm (Expression_text example_libm [CHR ''x'', CHR 0x09]) (Finite False 1)
       = NaN
   \<and> eval_x example_libm
         (Expression_text example_libm (filter (\<lambda>c. \<not> isspace c) [CHR ''x'', CHR 0x09]))
         (Finite False 1)
       = Finite False 1"
  by code_simp

section \<open>Precedence and associativity\<close>

lemma getRPN_step_operand:
  assumes "operand_token funcs vars nm v"
  shows "getRPN_step funcs nm (out, ops) = (out @ [rpn_form nm], ops)"
proof (cases "getNumber nm")
  case None
  with assms have "plain_name nm" and "isFunction funcs nm = None"
    unfolding operand_token_def by simp_all
  from getRPN_step_variable [OF None this(2,1)] None show ?thesis
    by (simp add: rpn_form_def)
next
  case (Some x)
  then show ?thesis
    by (simp add: getRPN_step_def rpn_form_def)
qed

lemma evalRPN_step_operand:
  assumes "operand_token funcs vars nm v"
  shows "evalRPN_step lm funcs vars (rpn_form nm) vs = Some (v # vs)"
proof (cases "getNumber nm")
  case None
  with assms have "plain_name nm" and "isFunction funcs nm = None"
    and "isVariable nm vars = Some v"
    unfolding operand_token_def by simp_all
  from evalRPN_step_variable [OF None this(2,1,3)] None show ?thesis
    by (simp add: rpn_form_def)
next
  case (Some x)
  with assms have "getNumber (numberToString x) = Some v"
    unfolding operand_token_def by simp
  from evalRPN_step_number [OF this] Some show ?thesis
    by (simp add: rpn_form_def)
qed

lemma operand_token_plain: "operand_token funcs vars nm v \<Longrightarrow> plain_name nm"
  unfolding operand_token_def by (rule conjunct1)

lemma eval_power_chain:
  assumes "operand_token funcs vars a va" and "operand_token funcs vars b vb"
    and "operand_token funcs vars c vc" and "isFunction funcs ''^'' = None"
  shows "eval_vars lm (Expression_funcs (a @ ''^'' @ b @ ''^'' @ c) funcs) vars
           = c_pow lm va (c_pow lm vb vc)"
proof -
  note pa = operand_token_plain [OF assms(1)]
  note pb = operand_token_plain [OF assms(2)]
  note pc = operand_token_plain [OF assms(3)]
  note ra = getRPN_step_operand [OF assms(1)]
  note rb = getRPN_step_operand [OF assms(2)]
  note rc = getRPN_step_operand [OF assms(3)]
  note op = getRPN_step_operator [OF operator_facts(1) assms(4)]
  have flt: "filter (\<lambda>x. x \<noteq> CHR '' '') (a @ ''^'' @ b @ ''^'' @ c) = a @ ''^'' @ b @ ''^'' @ c"
    by (simp add: plain_name_filter pa pb pc)
  have r: "getRPN funcs [a, ''^'', b, ''^'', c]
         = [rpn_form a, rpn_form b, rpn_form c, ''^'', ''^'']"
    by (simp add: getRPN_def ra rb rc op operator_facts)
  note ea = evalRPN_step_operand [OF assms(1)]
  note eb = evalRPN_step_operand [OF assms(2)]
  note ec = evalRPN_step_operand [OF assms(3)]
  note eo = evalRPN_step_binop [OF operator_facts(2) assms(4)]
  have "evalRPN lm funcs [rpn_form a, rpn_form b, rpn_form c, ''^'', ''^''] vars
      = c_pow lm va (c_pow lm vb vc)"
    by (simp add: evalRPN_def ea eb ec eo calculate_def)
  moreover have "getTokens (filter (\<lambda>x. x \<noteq> CHR '' '') (a @ ''^'' @ b @ ''^'' @ c))
      = [a, ''^'', b, ''^'', c]"
    by (simp only: flt tokens_power_chain [OF pa pb pc])
  ultimately show ?thesis
    unfolding eval_vars_def Expression_funcs_def Let_def by (simp add: r)
qed

lemma eval_double_negation:
  assumes "operand_token funcs vars a va" and "isFunction funcs ''~'' = None"
  shows "eval_vars lm (Expression_funcs (''~~'' @ a) funcs) vars
           = dmul (Finite True 1) (dmul (Finite True 1) va)"
proof -
  note pa = operand_token_plain [OF assms(1)]
  note ra = getRPN_step_operand [OF assms(1)]
  note op = getRPN_step_operator [OF operator_facts(5) assms(2)]
  have flt: "filter (\<lambda>x. x \<noteq> CHR '' '') (''~~'' @ a) = ''~~'' @ a"
    by (simp add: plain_name_filter pa)
  have r: "getRPN funcs [''~'', ''~'', a] = [rpn_form a, ''~'', ''~'']"
    by (simp add: getRPN_def ra op operator_facts)
  note ea = evalRPN_step_operand [OF assms(1)]
  note eo = evalRPN_step_negation [OF assms(2)]
  have "evalRPN lm funcs [rpn_form a, ''~'', ''~''] vars
      = dmul (Finite True 1) (dmul (Finite True 1) va)"
    by (simp add: evalRPN_def ea eo)
  moreover have "getTokens (filter (\<lambda>x. x \<noteq> CHR '' '') (''~~'' @ a)) = [''~'', ''~'', a]"
    by (simp only: flt tokens_double_negation [OF pa])
  ultimately show ?thesis
    unfolding eval_vars_def Expression_funcs_def Let_def by (simp add: r)
qed

lemma literal_operands:
  "operand_token funcs vars ''2'' (Finite False 2)"
  "operand_token funcs vars ''3'' (Finite False 3)"
  by code_simp+

lemma eval_2_3_2:
  "eval lm (Expression_text lm ''2^3^2'')
     = c_pow lm (Finite False 2) (c_pow lm (Finite False 3) (Finite False 2))"
proof -
  have nf: "isFunction (defaultFunctions lm) ''^'' = None"
    by (simp add: defaultFunctions_def)
  from eval_power_chain [OF literal_operands(1) literal_operands(2) literal_operands(1) nf]
  show ?thesis
    by (simp add: eval_def Expression_text_def)
qed

text \<open>
  Claim C3. When \<open>getRPN\<close> reads an operator \<open>o1\<close> (a token of \<open>+ - * / ^ ~\<close> that the
  function table does not name) and \<open>o2\<close> is on top of the operator stack, \<open>o2\<close> is popped
  to the output, and the test repeated on the rest of the stack, if and only if \<open>o2\<close> is not
  \<open>(\<close> and either \<open>precedence(o2) > precedence(o1)\<close>, or the precedences are equal and
  \<open>o1\<close> is left-associative; otherwise \<open>o1\<close> is pushed on top of \<open>o2\<close>. Neither \<open>^\<close> nor
  \<open>~\<close> is left-associative, so they group right to left: for all operand tokens \<open>a\<close>,
  \<open>b\<close>, \<open>c\<close> (numeric literals or variables) of values \<open>va\<close>, \<open>vb\<close>, \<open>vc\<close> the expression
  \<open>a^b^c\<close> evaluates to \<open>pow(va, pow(vb, vc))\<close> and \<open>~~a\<close> to \<open>-1.0 * (-1.0 * va)\<close>. So
  \<open>2^3^2\<close> evaluates to \<open>pow(2, pow(3, 2))\<close>, which is 512 for a \<open>pow\<close> that is exact on
  \<open>3^2\<close> and \<open>2^9\<close>.
\<close>

theorem shunting_yard_right_associative:
  assumes "isOperator o1" and "isFunction funcs o1 = None"
    and "isFunction funcs ''^'' = None" and "isFunction funcs ''~'' = None"
    and "operand_token funcs vars a va" and "operand_token funcs vars b vb"
    and "operand_token funcs vars c vc"
    and "c_pow lm (Finite False 3) (Finite False 2) = Finite False 9"
    and "c_pow lm (Finite False 2) (Finite False 9) = Finite False 512"
  shows "getRPN_step funcs o1 (out, o2 # ops) =
           (if o2 \<noteq> ''(''
               \<and> (precedence o2 > precedence o1
                  \<or> (precedence o2 = precedence o1 \<and> isLeftAssociative o1))
            then getRPN_step funcs o1 (out @ [o2], ops)
            else (out, o1 # o2 # ops))
       \<and> \<not> isLeftAssociative ''^'' \<and> \<not> isLeftAssociative ''~''
       \<and> eval_vars lm (Expression_funcs (a @ ''^'' @ b @ ''^'' @ c) funcs) vars
           = c_pow lm va (c_pow lm vb vc)
       \<and> eval_vars lm (Expression_funcs (''~~'' @ a) funcs) vars
           = dmul (Finite True 1) (dmul (Finite True 1) va)
       \<and> eval lm (Expression_text lm ''2^3^2'')
           = c_pow lm (Finite False 2) (c_pow lm (Finite False 3) (Finite False 2))
       \<and> eval lm (Expression_text lm ''2^3^2'') = Finite False 512"
proof (intro conjI)
  show "getRPN_step funcs o1 (out, o2 # ops) =
           (if o2 \<noteq> ''(''
               \<and> (precedence o2 > precedence o1
                  \<or> (precedence o2 = precedence o1 \<and> isLeftAssociative o1))
            then getRPN_step funcs o1 (out @ [o2], ops)
            else (out, o1 # o2 # ops))"
    by (rule getRPN_step_pop [OF assms(1,2)])
  show "\<not> isLeftAssociative ''^''" and "\<not> isLeftAssociative ''~''"
    by (rule operator_facts)+
  show "eval_vars lm (Expression_funcs (a @ ''^'' @ b @ ''^'' @ c) funcs) vars
           = c_pow lm va (c_pow lm vb vc)"
    by (rule eval_power_chain [OF assms(5,6,7,3)])
  show "eval_vars lm (Expression_funcs (''~~'' @ a) funcs) vars
           = dmul (Finite True 1) (dmul (Finite True 1) va)"
    by (rule eval_double_negation [OF assms(5,4)])
  show "eval lm (Expression_text lm ''2^3^2'')
           = c_pow lm (Finite False 2) (c_pow lm (Finite False 3) (Finite False 2))"
    by (rule eval_2_3_2)
  show "eval lm (Expression_text lm ''2^3^2'') = Finite False 512"
    by (simp only: eval_2_3_2 assms(8,9))
qed

theorem shunting_yard_right_associative_witness:
  "isOperator ''^''
   \<and> isFunction (defaultFunctions example_libm) ''^'' = None
   \<and> isFunction (defaultFunctions example_libm) ''~'' = None
   \<and> operand_token (defaultFunctions example_libm)
        [\<lparr>Variable.name = ''a'', val = Finite False 2\<rparr>, \<lparr>Variable.name = ''c'', val = Finite False 2\<rparr>]
        ''a'' (Finite False 2)
   \<and> operand_token (defaultFunctions example_libm)
        [\<lparr>Variable.name = ''a'', val = Finite False 2\<rparr>, \<lparr>Variable.name = ''c'', val = Finite False 2\<rparr>]
        ''3'' (Finite False 3)
   \<and> operand_token (defaultFunctions example_libm)
        [\<lparr>Variable.name = ''a'', val = Finite False 2\<rparr>, \<lparr>Variable.name = ''c'', val = Finite False 2\<rparr>]
        ''c'' (Finite False 2)
   \<and> c_pow example_libm (Finite False 3) (Finite False 2) = Finite False 9
   \<and> c_pow example_libm (Finite False 2) (Finite False 9) = Finite False 512
   \<and> getRPN_step (defaultFunctions example_libm) ''^'' ([], [''^'']) = ([], [''^'', ''^''])
   \<and> eval_vars example_libm (Expression_funcs ''a^3^c'' (defaultFunctions example_libm))
        [\<lparr>Variable.name = ''a'', val = Finite False 2\<rparr>, \<lparr>Variable.name = ''c'', val = Finite False 2\<rparr>]
        = Finite False 512
   \<and> eval_vars example_libm (Expression_funcs ''~~a'' (defaultFunctions example_libm))
        [\<lparr>Variable.name = ''a'', val = Finite False 2\<rparr>, \<lparr>Variable.name = ''c'', val = Finite False 2\<rparr>]
        = Finite False 2
   \<and> eval example_libm (Expression_text example_libm ''2^3^2'') = Finite False 512"
proof -
  let ?F = "defaultFunctions example_libm"
  let ?V = "[\<lparr>Variable.name = ''a'', val = Finite False 2\<rparr>,
             \<lparr>Variable.name = ''c'', val = Finite False 2\<rparr>]"
  have h1: "isOperator ''^''" by (rule operator_facts(1))
  have h2: "isFunction ?F ''^'' = None" and h3: "isFunction ?F ''~'' = None"
    by (simp_all add: defaultFunctions_def)
  have h4: "operand_token ?F ?V ''a'' (Finite False 2)" by code_simp
  have h5: "operand_token ?F ?V ''3'' (Finite False 3)" by code_simp
  have h6: "operand_token ?F ?V ''c'' (Finite False 2)" by code_simp
  have h7: "c_pow example_libm (Finite False 3) (Finite False 2) = Finite False 9" by code_simp
  have h8: "c_pow example_libm (Finite False 2) (Finite False 9) = Finite False 512" by code_simp
  have n: "dmul (Finite True 1) (dmul (Finite True 1) (Finite False 2)) = Finite False 2"
    by code_simp
  from shunting_yard_right_associative [OF h1 h2 h2 h3 h4 h5 h6 h7 h8,
      where out = "[]" and ?o2.0 = "''^''" and ops = "[]"]
  show ?thesis
    using h1 h2 h3 h4 h5 h6 h7 h8 n by (simp add: operator_facts)
qed

section \<open>Worked expressions\<close>

text \<open>
  Claim C4. Unary negation \<open>~\<close> is an operator of its own, distinct from the binary \<open>-\<close>:
  with the default functions and variables, \<open>3-1\<close> evaluates to 2, \<open>~3+1\<close> to \<open>-2\<close>,
  \<open>~(1+2)\<close> to \<open>-3\<close>, and \<open>~pi\<close> to the negation of the stored default of \<open>pi\<close>, the
  \<open>float\<close> nearest to 3.141592654, which is 13176795 / 4194304. The sign \<open>-\<close> is binary
  only: in \<open>-3+1\<close> it finds a single value on the stack and is skipped, and the result
  is 4.
\<close>

theorem negation_and_subtraction_examples:
  "eval lm (Expression_text lm ''3-1'') = Finite False 2
   \<and> eval lm (Expression_text lm ''~3+1'') = Finite True 2
   \<and> eval lm (Expression_text lm ''~(1+2)'') = Finite True 3
   \<and> eval lm (Expression_text lm ''~pi'') = Finite True (13176795 / 4194304)
   \<and> val (defaultVariables ! 0) = Finite False (13176795 / 4194304)
   \<and> rpn (Expression_text lm ''3-1'') = [''3'', ''1'', ''-'']
   \<and> rpn (Expression_text lm ''~3+1'') = [''3'', ''~'', ''1'', ''+'']
   \<and> isUnaryOperator ''~'' \<and> \<not> isBinaryOperator ''~''
   \<and> isBinaryOperator ''-'' \<and> \<not> isUnaryOperator ''-''
   \<and> eval lm (Expression_text lm ''-3+1'') = Finite False 4"
proof (intro conjI)
  show "eval lm (Expression_text lm ''3-1'') = Finite False 2" by code_simp
  show "eval lm (Expression_text lm ''~3+1'') = Finite True 2" by code_simp
  show "eval lm (Expression_text lm ''~(1+2)'') = Finite True 3" by code_simp
  show "eval lm (Expression_text lm ''~pi'') = Finite True (13176795 / 4194304)" by code_simp
  show "val (defaultVariables ! 0) = Finite False (13176795 / 4194304)" by code_simp
  show "rpn (Expression_text lm ''3-1'') = [''3'', ''1'', ''-'']" by code_simp
  show "rpn (Expression_text lm ''~3+1'') = [''3'', ''~'', ''1'', ''+'']" by code_simp
  show "isUnaryOperator ''~''" and "\<not> isBinaryOperator ''~''"
    and "isBinaryOperator ''-''" and "\<not> isUnaryOperator ''-''"
    by (simp_all add: isUnaryOperator_def isBinaryOperator_def)
  show "eval lm (Expression_text lm ''-3+1'') = Finite False 4" by code_simp
qed

section \<open>The re-serialization of number literals\<close>

text \<open>
  The stream writes a positive value with the six digits and the decimal exponent of
  \<open>decimal6\<close>. The first lemmas bound \<open>ilog10\<close> and the rounding, and so the distance
  between the value and the decimal that is written.
\<close>

lemma pow10_powi: "pow10 k = 10 powi k"
proof (cases "0 \<le> k")
  case True
  then show ?thesis
    unfolding pow10_def power_int_def by (simp only: ipow_power if_True)
next
  case False
  then have "0 \<le> - k" by simp
  from ipow_power [OF this] False show ?thesis
    unfolding pow10_def power_int_def
    by (simp only: if_False inverse_eq_divide power_one_over)
qed

lemma pow10_pos: "0 < pow10 k"
  by (simp add: pow10_powi)

lemma pow10_add: "pow10 (j + k) = pow10 j * pow10 k"
  by (simp add: pow10_powi power_int_add)

lemma pow10_nat: "pow10 (int m) = 10 ^ m"
  by (simp add: pow10_powi)

lemma pow10_mono: "j \<le> k \<Longrightarrow> pow10 j \<le> pow10 k"
  by (simp add: pow10_powi power_int_increasing)

lemma pow10_less: "pow10 j < pow10 k \<Longrightarrow> j < k"
  by (metis linorder_not_less pow10_mono)

lemma declen_bounds:
  "0 < a \<Longrightarrow> 0 < declen a \<and> 10 ^ nat (declen a - 1) \<le> a \<and> a < 10 ^ nat (declen a)"
proof (induction a rule: declen.induct)
  case (1 n)
  show ?case
  proof (cases "n div 10 = 0")
    case True
    with 1(2) have "n < 10" by presburger
    moreover from True have "declen (n div 10) = 0" by (simp add: declen.simps)
    ultimately show ?thesis using 1(2) by (subst (1 2 3) declen.simps) simp
  next
    case False
    with 1(2) have p: "0 < n div 10" by presburger
    from 1(1) [OF _ p] 1(2)
    have ih: "0 < declen (n div 10)" "10 ^ nat (declen (n div 10) - 1) \<le> n div 10"
      "n div 10 < 10 ^ nat (declen (n div 10))"
      by simp_all
    have d: "declen n = 1 + declen (n div 10)"
      using 1(2) by (subst declen.simps) simp
    have e: "nat (declen n - 1) = Suc (nat (declen (n div 10) - 1))"
      "nat (declen n) = Suc (nat (declen (n div 10)))"
      using ih(1) d by simp_all
    have "10 * 10 ^ nat (declen (n div 10) - 1) \<le> n"
      using ih(2) by presburger
    moreover have "n < 10 * 10 ^ nat (declen (n div 10))"
      using ih(3) by presburger
    ultimately show ?thesis using ih(1) d e by simp
  qed
qed

lemma ilog10_bounds:
  assumes "0 < q"
  shows "pow10 (ilog10 q) \<le> q" and "q < pow10 (ilog10 q + 1)"
proof -
  obtain a b where ab: "quotient_of q = (a, b)" by (cases "quotient_of q")
  then have b: "0 < b" and q: "q = of_int a / of_int b"
    using quotient_of_denom_pos quotient_of_div by blast+
  with assms have a: "0 < a"
    by (simp add: zero_less_divide_iff)
  define k where "k = declen a - declen b"
  note da = declen_bounds [OF a] and db = declen_bounds [OF b]
  have il: "ilog10 q = (if pow10 k \<le> q then k else k - 1)"
    by (simp add: ilog10_def ab k_def)
  have lo: "pow10 (k - 1) \<le> q"
  proof -
    have "pow10 (declen a - 1) \<le> of_int a"
      using da by (metis int_nat_eq of_int_le_iff of_int_numeral of_int_power pow10_nat
          diff_ge_0_iff_ge add_0 less_le_not_le zless_imp_add1_zle)
    moreover have "of_int b \<le> pow10 (declen b)"
      using db by (metis int_nat_eq less_imp_le of_int_le_iff of_int_numeral of_int_power pow10_nat)
    moreover have "pow10 (k - 1) * pow10 (declen b) = pow10 (declen a - 1)"
      by (simp add: k_def pow10_add [symmetric])
    moreover have "pow10 (k - 1) * of_int b \<le> pow10 (k - 1) * pow10 (declen b)"
      if "of_int b \<le> pow10 (declen b)"
      using that by (intro mult_left_mono less_imp_le [OF pow10_pos])
    ultimately have "pow10 (k - 1) * of_int b \<le> of_int a"
      by simp
    then show ?thesis using b by (simp add: q pos_le_divide_eq)
  qed
  have hi: "q < pow10 (k + 1)"
  proof -
    have "of_int a < pow10 (declen a)"
      using da by (metis int_nat_eq less_imp_le of_int_less_iff of_int_numeral of_int_power pow10_nat)
    moreover have "pow10 (declen b - 1) \<le> of_int b"
      using db by (metis int_nat_eq of_int_le_iff of_int_numeral of_int_power pow10_nat
          diff_ge_0_iff_ge add_0 less_le_not_le zless_imp_add1_zle)
    moreover have "pow10 (k + 1) * pow10 (declen b - 1) = pow10 (declen a)"
      by (simp add: k_def pow10_add [symmetric])
    moreover have "pow10 (k + 1) * pow10 (declen b - 1) \<le> pow10 (k + 1) * of_int b"
      if "pow10 (declen b - 1) \<le> of_int b"
      using that by (intro mult_left_mono less_imp_le [OF pow10_pos])
    ultimately have "of_int a < pow10 (k + 1) * of_int b"
      by simp
    then show ?thesis using b by (simp add: q pos_divide_less_eq)
  qed
  show "pow10 (ilog10 q) \<le> q" using il lo by auto
  show "q < pow10 (ilog10 q + 1)" using il hi by (auto simp: not_le)
qed

lemma round_half_even_near: "\<bar>q - of_int (round_half_even q)\<bar> \<le> 1 / 2"
proof -
  have "of_int \<lfloor>q\<rfloor> \<le> q" "q < of_int \<lfloor>q\<rfloor> + 1"
    by linarith+
  then show ?thesis
    unfolding round_half_even_def Let_def by (auto simp: abs_le_iff)
qed

lemma round_half_even_lower: "of_int a \<le> q \<Longrightarrow> a \<le> round_half_even q"
proof -
  assume "of_int a \<le> q"
  then have "a \<le> \<lfloor>q\<rfloor>" by (simp add: le_floor_iff)
  then show ?thesis unfolding round_half_even_def Let_def by auto
qed

lemma round_half_even_upper: "q < of_int b \<Longrightarrow> round_half_even q \<le> b"
proof -
  assume "q < of_int b"
  then have "\<lfloor>q\<rfloor> < b" by (simp add: floor_less_iff)
  then show ?thesis unfolding round_half_even_def Let_def by auto
qed

lemma decimal6_bounds:
  assumes "0 < q" and "decimal6 q = (n, x)"
  shows "100000 \<le> n" and "n < 1000000"
    and "\<bar>q - of_int n * pow10 (x - 5)\<bar> \<le> pow10 (x - 5) / 2"
proof -
  define x0 where "x0 = ilog10 q"
  define P where "P = pow10 (x0 - 5)"
  define t where "t = q / P"
  define n0 where "n0 = round_half_even t"
  have P: "0 < P" by (simp add: P_def pow10_pos)
  have p5: "pow10 5 = 100000" and p6: "pow10 6 = 1000000" and p1: "pow10 1 = 10"
    by (simp_all add: pow10_powi)
  have "pow10 x0 = pow10 5 * P" "pow10 (x0 + 1) = pow10 6 * P"
    using pow10_add [of 5 "x0 - 5"] pow10_add [of 6 "x0 - 5"] by (simp_all add: P_def add.commute)
  with ilog10_bounds [OF assms(1)] have "100000 * P \<le> q" "q < 1000000 * P"
    by (simp_all add: x0_def p5 p6)
  with P have t: "of_int 100000 \<le> t" "t < of_int 1000000"
    by (simp_all add: t_def pos_le_divide_eq pos_divide_less_eq)
  have lo: "100000 \<le> n0" and hi: "n0 \<le> 1000000"
    unfolding n0_def by (rule round_half_even_lower [OF t(1)], rule round_half_even_upper [OF t(2)])
  have "\<bar>t - of_int n0\<bar> \<le> 1 / 2"
    unfolding n0_def by (rule round_half_even_near)
  then have "\<bar>t - of_int n0\<bar> * P \<le> (1 / 2) * P"
    using P by (intro mult_right_mono) simp_all
  moreover have "\<bar>t - of_int n0\<bar> * P = \<bar>q - of_int n0 * P\<bar>"
  proof -
    have "\<bar>t - of_int n0\<bar> * P = \<bar>(t - of_int n0) * P\<bar>"
      using P by (simp add: abs_mult)
    also have "(t - of_int n0) * P = q - of_int n0 * P"
      using P by (simp add: t_def left_diff_distrib)
    finally show ?thesis .
  qed
  ultimately have near: "\<bar>q - of_int n0 * P\<bar> \<le> P / 2" by simp
  have d: "decimal6 q = (if n0 = 1000000 then (100000, x0 + 1) else (n0, x0))"
    by (simp add: decimal6_def Let_def x0_def n0_def t_def P_def)
  show "100000 \<le> n" "n < 1000000"
    using d assms(2) lo hi by (auto split: if_splits)
  show "\<bar>q - of_int n * pow10 (x - 5)\<bar> \<le> pow10 (x - 5) / 2"
  proof (cases "n0 = 1000000")
    case True
    with d assms(2) have nx: "n = 100000" "x = x0 + 1" by simp_all
    have "pow10 (x - 5) = 10 * P"
      using pow10_add [of 1 "x0 - 5"] by (simp add: nx P_def p1 algebra_simps)
    with near True P show ?thesis by (simp add: nx)
  next
    case False
    with d assms(2) have "n = n0" "x = x0" by simp_all
    with near show ?thesis by (simp add: P_def)
  qed
qed

text \<open>
  What \<open>numberToString\<close> writes is read again by \<open>getNumber\<close> when the RPN is evaluated.
  The lemmas below follow the digits through \<open>digits10\<close>, \<open>strip_zeros\<close> and the three
  layouts of \<open>format_g\<close>, and then through \<open>strtod\<close>.
\<close>

lemma isdigit_cases:
  "isdigit c \<longleftrightarrow> c = CHR ''0'' \<or> c = CHR ''1'' \<or> c = CHR ''2'' \<or> c = CHR ''3'' \<or> c = CHR ''4''
     \<or> c = CHR ''5'' \<or> c = CHR ''6'' \<or> c = CHR ''7'' \<or> c = CHR ''8'' \<or> c = CHR ''9''"
  unfolding isdigit_def by (simp only: set_simps insert_iff empty_iff) blast

lemma isdigit_facts:
  assumes "isdigit c"
  shows "tolower c = c" and "\<not> isspace c" and "c \<noteq> CHR 0x00" and "c \<noteq> CHR ''-''"
    and "c \<noteq> CHR ''+''" and "c \<noteq> CHR ''~''" and "c \<noteq> CHR ''.''" and "c \<noteq> CHR ''x''"
    and "c \<noteq> CHR ''X''" and "c \<noteq> CHR ''i''" and "c \<noteq> CHR ''n''" and "c \<notin> set ''eE''"
proof -
  from assms consider "c = CHR ''0''" | "c = CHR ''1''" | "c = CHR ''2''" | "c = CHR ''3''"
    | "c = CHR ''4''" | "c = CHR ''5''" | "c = CHR ''6''" | "c = CHR ''7''" | "c = CHR ''8''"
    | "c = CHR ''9''"
    unfolding isdigit_cases by blast
  then have "tolower c = c \<and> \<not> isspace c \<and> c \<noteq> CHR 0x00 \<and> c \<noteq> CHR ''-''
    \<and> c \<noteq> CHR ''+'' \<and> c \<noteq> CHR ''~'' \<and> c \<noteq> CHR ''.'' \<and> c \<noteq> CHR ''x''
    \<and> c \<noteq> CHR ''X'' \<and> c \<noteq> CHR ''i'' \<and> c \<noteq> CHR ''n'' \<and> c \<notin> set ''eE''"
    by cases (simp_all add: tolower_def isspace_def)
  then show "tolower c = c" and "\<not> isspace c" and "c \<noteq> CHR 0x00" and "c \<noteq> CHR ''-''"
    and "c \<noteq> CHR ''+''" and "c \<noteq> CHR ''~''" and "c \<noteq> CHR ''.''" and "c \<noteq> CHR ''x''"
    and "c \<noteq> CHR ''X''" and "c \<noteq> CHR ''i''" and "c \<noteq> CHR ''n''" and "c \<notin> set ''eE''"
    by blast+
qed

lemma digit_char:
  assumes "0 \<le> (d::int)" and "d < 10"
  shows "isdigit (char_of (48 + d))" and "xdigit_val (char_of (48 + d)) = d"
proof -
  from assms have "d = 0 \<or> d = 1 \<or> d = 2 \<or> d = 3 \<or> d = 4 \<or> d = 5 \<or> d = 6
    \<or> d = 7 \<or> d = 8 \<or> d = 9"
    by presburger
  then consider "d = 0" | "d = 1" | "d = 2" | "d = 3" | "d = 4" | "d = 5" | "d = 6"
    | "d = 7" | "d = 8" | "d = 9"
    by blast
  then have "isdigit (char_of (48 + d)) \<and> xdigit_val (char_of (48 + d)) = d"
    by cases (simp_all, code_simp+)
  then show "isdigit (char_of (48 + d))" and "xdigit_val (char_of (48 + d)) = d" by simp_all
qed

lemma digits_val_append:
  "digits_val b (xs @ ys) = digits_val b xs * b ^ length ys + digits_val b ys"
proof (induction ys rule: rev_induct)
  case Nil
  show ?case by (simp add: digits_val_def)
next
  case (snoc y ys)
  have "digits_val b (xs @ ys @ [y]) = b * digits_val b (xs @ ys) + xdigit_val y"
    by (simp add: digits_val_def)
  moreover have "digits_val b (ys @ [y]) = b * digits_val b ys + xdigit_val y"
    by (simp add: digits_val_def)
  ultimately show ?case using snoc by (simp add: algebra_simps)
qed

lemma digits_val_zeros: "digits_val b (replicate k (CHR ''0'')) = 0"
proof (induction k)
  case 0
  show ?case by (simp add: digits_val_def)
next
  case (Suc k)
  have "xdigit_val (CHR ''0'') = 0" by code_simp
  moreover have "replicate (Suc k) (CHR ''0'') = replicate k (CHR ''0'') @ [CHR ''0'']"
    by (simp add: replicate_append_same)
  ultimately show ?case using Suc by (simp only: digits_val_append) (simp add: digits_val_def)
qed

lemma digits10_props:
  "0 < n \<Longrightarrow> (\<forall>c\<in>set (digits10 n). isdigit c) \<and> digits_val 10 (digits10 n) = n
     \<and> int (length (digits10 n)) = declen n"
proof (induction n rule: digits10.induct)
  case (1 n)
  have d: "digits10 n = digits10 (n div 10) @ [char_of (48 + n mod 10)]"
    using 1(2) by (subst digits10.simps) simp
  have l: "declen n = 1 + declen (n div 10)"
    using 1(2) by (subst declen.simps) simp
  have m: "0 \<le> n mod 10" "n mod 10 < 10" by simp_all
  note c = digit_char [OF m]
  have v: "digits_val 10 [char_of (48 + n mod 10)] = n mod 10"
    using c(2) by (simp add: digits_val_def)
  show ?case
  proof (cases "n div 10 = 0")
    case True
    have "digits10 (n div 10) = []" "declen (n div 10) = 0"
      using True by (simp_all add: digits10.simps declen.simps)
    moreover from True 1(2) have "n mod 10 = n" by presburger
    ultimately show ?thesis using c v d l by simp
  next
    case False
    with 1(2) have "0 < n div 10" by presburger
    from 1(1) [OF _ this] 1(2)
    have ih: "\<forall>c\<in>set (digits10 (n div 10)). isdigit c"
      "digits_val 10 (digits10 (n div 10)) = n div 10"
      "int (length (digits10 (n div 10))) = declen (n div 10)"
      by simp_all
    have "digits_val 10 (digits10 n) = (n div 10) * 10 + n mod 10"
      unfolding d digits_val_append ih(2) v by simp
    then show ?thesis using ih c d l by simp
  qed
qed

lemma declen_six:
  assumes "100000 \<le> n" and "n < 1000000"
  shows "declen n = 6"
proof -
  from assms have p: "0 < n" by simp
  note b = declen_bounds [OF p]
  have "declen n - 1 < 6"
  proof (rule ccontr)
    assume "\<not> declen n - 1 < 6"
    then have "6 \<le> nat (declen n - 1)" by simp
    then have "(10::int) ^ 6 \<le> 10 ^ nat (declen n - 1)"
      by (intro power_increasing) simp_all
    with b assms show False by simp
  qed
  moreover have "5 < declen n"
  proof (rule ccontr)
    assume "\<not> 5 < declen n"
    then have "nat (declen n) \<le> 5" by simp
    then have "(10::int) ^ nat (declen n) \<le> 10 ^ 5"
      by (intro power_increasing) simp_all
    with b assms show False by simp
  qed
  ultimately show ?thesis by simp
qed


lemma strip_zeros_decomp:
  "ds = strip_zeros ds @ replicate (length ds - length (strip_zeros ds)) (CHR ''0'')"
proof -
  define P where "P = (\<lambda>c. c = CHR ''0'')"
  define t where "t = takeWhile P (rev ds)"
  have "\<forall>c\<in>set t. c = CHR ''0''"
    unfolding t_def using set_takeWhileD [of _ P "rev ds"] by (auto simp: P_def)
  then have t: "replicate (length t) (CHR ''0'') = t"
    by (rule replicate_length_same)
  have "rev ds = t @ dropWhile P (rev ds)"
    unfolding t_def by simp
  then have "rev (rev ds) = rev (t @ dropWhile P (rev ds))" by (rule arg_cong)
  then have ds: "ds = strip_zeros ds @ rev t"
    by (simp add: strip_zeros_def P_def)
  then have "length ds = length (strip_zeros ds) + length t"
    by (metis length_append length_rev)
  then have "length ds - length (strip_zeros ds) = length t" by simp
  moreover have "rev t = replicate (length t) (CHR ''0'')"
    by (subst t [symmetric]) simp
  ultimately show ?thesis using ds by simp
qed

lemma strip_zeros_set: "set (strip_zeros ds) \<subseteq> set ds"
  unfolding strip_zeros_def using set_dropWhileD [of _ _ "rev ds"] by auto

lemma strip_zeros_length: "length (strip_zeros ds) \<le> length ds"
  unfolding strip_zeros_def by (simp add: length_dropWhile_le [of _ "rev ds", simplified])

lemma strip_zeros_val:
  "digits_val 10 (xs @ ys)
     = digits_val 10 (xs @ strip_zeros ys) * 10 ^ (length ys - length (strip_zeros ys))"
proof -
  have "xs @ ys = (xs @ strip_zeros ys)
      @ replicate (length ys - length (strip_zeros ys)) (CHR ''0'')"
    using strip_zeros_decomp [of ys] by simp
  then have "digits_val 10 (xs @ ys) = digits_val 10 ((xs @ strip_zeros ys)
      @ replicate (length ys - length (strip_zeros ys)) (CHR ''0''))"
    by (rule arg_cong)
  then show ?thesis
    by (simp only: digits_val_append [of _ "xs @ strip_zeros ys"] digits_val_zeros length_replicate
        add_0_right)
qed

lemma strip_zeros_scale:
  "of_int (digits_val 10 (xs @ strip_zeros ys)) * pow10 (e - int (length (strip_zeros ys)))
     = of_int (digits_val 10 (xs @ ys)) * pow10 (e - int (length ys))"
proof -
  define k where "k = length ys - length (strip_zeros ys)"
  have l: "int (length ys) = int (length (strip_zeros ys)) + int k"
    using strip_zeros_length [of ys] by (simp add: k_def)
  have "pow10 (e - int (length (strip_zeros ys))) = pow10 (int k + (e - int (length ys)))"
    by (simp add: l)
  also have "\<dots> = 10 ^ k * pow10 (e - int (length ys))"
    by (simp only: pow10_add pow10_nat)
  finally show ?thesis
    by (simp add: strip_zeros_val [of xs ys] k_def)
qed

lemma span_digits:
  assumes "\<forall>c\<in>set xs. isdigit c" and "r = [] \<or> \<not> isdigit (hd r)"
  shows "takeWhile isdigit (xs @ r) = xs" and "dropWhile isdigit (xs @ r) = r"
proof -
  from assms(2) have "takeWhile isdigit r = []" "dropWhile isdigit r = r"
    by (cases r; simp)+
  with assms(1) show "takeWhile isdigit (xs @ r) = xs" and "dropWhile isdigit (xs @ r) = r"
    by (simp_all add: takeWhile_append2 dropWhile_append2)
qed

lemma exponent_part_digits:
  assumes "ed \<noteq> []" and "\<forall>c\<in>set ed. isdigit c"
  shows "exponent_part ''eE'' (CHR ''e'' # (if neg then CHR ''-'' else CHR ''+'') # ed)
           = ((if neg then - 1 else 1) * digits_val 10 ed, [])"
proof -
  have tw: "takeWhile isdigit ed = ed" "dropWhile isdigit ed = []"
    using span_digits [OF assms(2), of "[]"] by simp_all
  show ?thesis
    using assms(1) by (simp add: exponent_part_def sign_part_def tw Let_def del: takeWhile_eq_all_conv dropWhile_eq_Nil_conv)
qed

lemma dec_float_layout:
  assumes "ip \<noteq> []" and "\<forall>c\<in>set ip. isdigit c" and "\<forall>c\<in>set fp. isdigit c"
    and "ex = [] \<or> hd ex = CHR ''e''"
    and "exponent_part ''eE'' ex = (e, [])"
  shows "dec_float (ip @ (if fp = [] then [] else CHR ''.'' # fp) @ ex)
           = Some (of_int (digits_val 10 (ip @ fp)) * pow10 (e - int (length fp)), [])"
proof -
  define r1 where "r1 = (if fp = [] then [] else CHR ''.'' # fp) @ ex"
  have nd: "\<not> isdigit (CHR ''e'')" "\<not> isdigit (CHR ''.'')"
    by (simp_all add: isdigit_def)
  from assms(4) nd have exd: "ex = [] \<or> \<not> isdigit (hd ex)" by auto
  then have "r1 = [] \<or> \<not> isdigit (hd r1)"
    using nd by (auto simp: r1_def)
  note sp = span_digits [OF assms(2) this]
  have fr: "fraction_part isdigit r1 = (fp, ex)"
  proof (cases "fp = []")
    case True
    with assms(4) show ?thesis
      by (cases ex) (auto simp: r1_def fraction_part_def)
  next
    case False
    then show ?thesis
      using span_digits [OF assms(3) exd] by (simp add: r1_def fraction_part_def)
  qed
  show ?thesis
    unfolding r1_def [symmetric] dec_float_def
    using assms(1,5) by (simp add: sp fr)
qed

lemma c_str_id: "CHR 0x00 \<notin> set s \<Longrightarrow> c_str s = s"
  unfolding c_str_def by (simp add: takeWhile_eq_all_conv) blast

lemma getNumber_decimal:
  assumes "isdigit c"
    and "\<forall>ch\<in>set r. isdigit ch \<or> ch \<in> set ''.e+-''"
    and "dec_float (c # r) = Some (v, [])"
  shows "getNumber ((if s then ''-'' else []) @ c # r) = Some (to_double s v)"
proof -
  note f = isdigit_facts [OF assms(1)]
  have ch: "ch \<noteq> CHR 0x00 \<and> ch \<noteq> CHR ''x'' \<and> ch \<noteq> CHR ''X''" if "ch \<in> set r" for ch
    using assms(2) that isdigit_facts(3,8,9) [of ch] by auto
  define str where "str = (if s then ''-'' else []) @ c # r"
  have h: "str ! 0 \<noteq> CHR ''~''"
    using f by (simp add: str_def)
  have "CHR 0x00 \<notin> set str"
    using f ch by (auto simp: str_def)
  then have cs: "c_str str = str" by (rule c_str_id)
  have "\<not> isspace (CHR ''-'')" by (simp add: isspace_def)
  then have dw: "dropWhile isspace str = str"
    using f by (simp add: str_def)
  have sg: "sign_part str = (s, c # r)"
    using f by (simp add: str_def sign_part_def)
  have inn: "inf_nan s (c # r) = None"
    using f by (simp add: inf_nan_def)
  have hx: "hex_float (c # r) = None"
    using ch by (cases r) (simp_all add: hex_float_def)
  have "strtod str = (to_double s v, [])"
    by (simp add: strtod_def dw sg inn hx assms(3))
  then show ?thesis
    unfolding str_def [symmetric] getNumber_def using h by (simp add: cs)
qed

lemma exponent_digits_props:
  assumes "0 < x"
  shows "exponent_digits x \<noteq> []" and "\<forall>c\<in>set (exponent_digits x). isdigit c"
    and "digits_val 10 (exponent_digits x) = x"
proof -
  note p = digits10_props [OF assms]
  have z: "isdigit (CHR ''0'')" by (simp add: isdigit_def)
  from p assms have ne: "digits10 x \<noteq> []"
    by (auto simp: digits_val_def)
  have "digits_val 10 (CHR ''0'' # digits10 x) = digits_val 10 (replicate 1 (CHR ''0'') @ digits10 x)"
    by simp
  also have "\<dots> = x"
    by (simp only: digits_val_append digits_val_zeros) (simp add: p)
  finally have v: "digits_val 10 (CHR ''0'' # digits10 x) = x" .
  show "exponent_digits x \<noteq> []" using ne by (simp add: exponent_digits_def)
  show "\<forall>c\<in>set (exponent_digits x). isdigit c"
    using p z assms by (simp add: exponent_digits_def)
  show "digits_val 10 (exponent_digits x) = x"
    using p v assms by (simp add: exponent_digits_def)
qed

lemma format_g_readback:
  assumes "0 < q" and "decimal6 q = (n, x)"
  shows "getNumber ((if s then ''-'' else []) @ format_g q)
           = Some (to_double s (of_int n * pow10 (x - 5)))"
proof -
  note b = decimal6_bounds [OF assms]
  from b have n: "0 < n" by simp
  define ds where "ds = digits10 n"
  have dig: "\<forall>c\<in>set ds. isdigit c" and val: "digits_val 10 ds = n" and len: "length ds = 6"
    using digits10_props [OF n] declen_six [OF b(1,2)] by (simp_all add: ds_def)
  from len obtain d0 t where ds: "ds = d0 # t" and lt: "length t = 5"
    by (cases ds) simp_all
  from dig have d0: "isdigit d0" and tdig: "\<forall>c\<in>set t. isdigit c"
    by (simp_all add: ds)
  have szd: "\<forall>c\<in>set (strip_zeros ys). isdigit c" if "\<forall>c\<in>set ys. isdigit c" for ys
    using that strip_zeros_set [of ys] by blast
  have ex0: "exponent_part ''eE'' [] = (0, [])"
    by (simp add: exponent_part_def)
  consider (E) "x < - 4 \<or> 6 \<le> x" | (F0) "0 \<le> x" "x < 6" | (F1) "- 4 \<le> x" "x < 0"
    by linarith
  then show ?thesis
  proof cases
    case E
    define fr where "fr = strip_zeros t"
    define ed where "ed = exponent_digits \<bar>x\<bar>"
    define ex where "ex = CHR ''e'' # (if x < 0 then CHR ''-'' else CHR ''+'') # ed"
    define r where "r = (if fr = [] then [] else CHR ''.'' # fr) @ ex"
    from E have "0 < \<bar>x\<bar>" by linarith
    note e = exponent_digits_props [OF this, folded ed_def]
    have fg: "format_g q = d0 # r"
      using E by (simp add: format_g_def assms(2) ds_def [symmetric] ds fr_def ed_def ex_def r_def
          Let_def)
    have frd: "\<forall>c\<in>set fr. isdigit c"
      unfolding fr_def by (rule szd [OF tdig])
    have "exponent_part ''eE'' ex = ((if x < 0 then - 1 else 1) * digits_val 10 ed, [])"
      unfolding ex_def by (rule exponent_part_digits [OF e(1,2)])
    then have ep: "exponent_part ''eE'' ex = (x, [])"
      using e(3) by (simp split: if_splits)
    have "dec_float ([d0] @ (if fr = [] then [] else CHR ''.'' # fr) @ ex)
        = Some (of_int (digits_val 10 ([d0] @ fr)) * pow10 (x - int (length fr)), [])"
      by (rule dec_float_layout [OF _ _ frd _ ep]) (simp_all add: d0 ex_def)
    also have "of_int (digits_val 10 ([d0] @ fr)) * pow10 (x - int (length fr))
        = of_int n * pow10 (x - 5)"
      unfolding fr_def strip_zeros_scale using val lt by (simp add: ds)
    finally have df: "dec_float (d0 # r) = Some (of_int n * pow10 (x - 5), [])"
      by (simp add: r_def)
    have "\<forall>ch\<in>set r. isdigit ch \<or> ch \<in> set ''.e+-''"
      using frd e(2) by (auto simp: r_def ex_def)
    from getNumber_decimal [OF d0 this df] show ?thesis by (simp only: fg)
  next
    case F0
    define k where "k = nat x"
    define fr where "fr = strip_zeros (drop k t)"
    define r where "r = take k t @ (if fr = [] then [] else CHR ''.'' # fr)"
    have fg: "format_g q = d0 # r"
      using F0 by (simp add: format_g_def assms(2) ds_def [symmetric] ds fr_def r_def k_def Let_def)
    have tkd: "\<forall>c\<in>set (take k t). isdigit c"
      using tdig by (meson in_set_takeD)
    have drd: "\<forall>c\<in>set (drop k t). isdigit c"
      using tdig by (meson in_set_dropD)
    have frd: "\<forall>c\<in>set fr. isdigit c"
      unfolding fr_def by (rule szd [OF drd])
    have "dec_float ((d0 # take k t) @ (if fr = [] then [] else CHR ''.'' # fr) @ [])
        = Some (of_int (digits_val 10 ((d0 # take k t) @ fr)) * pow10 (0 - int (length fr)), [])"
      by (rule dec_float_layout [OF _ _ frd _ ex0]) (simp_all add: d0 tkd)
    also have "of_int (digits_val 10 ((d0 # take k t) @ fr)) * pow10 (0 - int (length fr))
        = of_int (digits_val 10 ((d0 # take k t) @ drop k t)) * pow10 (0 - int (length (drop k t)))"
      unfolding fr_def by (rule strip_zeros_scale)
    also have "\<dots> = of_int n * pow10 (x - 5)"
      using val lt F0 by (simp add: ds k_def)
    finally have df: "dec_float (d0 # r) = Some (of_int n * pow10 (x - 5), [])"
      by (simp add: r_def)
    have "\<forall>ch\<in>set r. isdigit ch \<or> ch \<in> set ''.e+-''"
      using frd tkd by (auto simp: r_def)
    from getNumber_decimal [OF d0 this df] show ?thesis by (simp only: fg)
  next
    case F1
    define k where "k = nat (- x - 1)"
    define sz where "sz = strip_zeros ds"
    define fp where "fp = replicate k (CHR ''0'') @ sz"
    define r where "r = CHR ''.'' # fp"
    have z: "isdigit (CHR ''0'')" by (simp add: isdigit_def)
    have fg: "format_g q = CHR ''0'' # r"
      using F1 by (simp add: format_g_def assms(2) ds_def [symmetric] sz_def fp_def r_def k_def
          Let_def)
    have szd': "\<forall>c\<in>set sz. isdigit c"
      unfolding sz_def by (rule szd [OF dig])
    have "sz \<noteq> []"
    proof
      assume "sz = []"
      with strip_zeros_val [of "[]" ds] have "digits_val 10 ds = 0"
        by (simp add: sz_def digits_val_def)
      with val n show False by simp
    qed
    then have fpn: "fp \<noteq> []" by (simp add: fp_def)
    have fpd: "\<forall>c\<in>set fp. isdigit c"
      using szd' z by (auto simp: fp_def)
    have "dec_float (''0'' @ (if fp = [] then [] else CHR ''.'' # fp) @ [])
        = Some (of_int (digits_val 10 (''0'' @ fp)) * pow10 (0 - int (length fp)), [])"
      by (rule dec_float_layout [OF _ _ fpd _ ex0]) (simp_all add: z)
    also have "''0'' @ fp = replicate (Suc k) (CHR ''0'') @ sz"
      by (simp add: fp_def)
    also have "digits_val 10 (replicate (Suc k) (CHR ''0'') @ sz) = digits_val 10 ([] @ sz)"
      by (simp only: digits_val_append digits_val_zeros) (simp add: digits_val_def)
    also have "0 - int (length fp) = (x + 1) - int (length sz)"
      using F1 by (simp add: fp_def k_def)
    also have "of_int (digits_val 10 ([] @ sz)) * pow10 ((x + 1) - int (length sz))
        = of_int (digits_val 10 ([] @ ds)) * pow10 ((x + 1) - int (length ds))"
      unfolding sz_def by (rule strip_zeros_scale)
    also have "\<dots> = of_int n * pow10 (x - 5)"
      using val len by simp
    finally have df: "dec_float (CHR ''0'' # r) = Some (of_int n * pow10 (x - 5), [])"
      using fpn by (simp add: r_def)
    have "\<forall>ch\<in>set r. isdigit ch \<or> ch \<in> set ''.e+-''"
      using fpd by (auto simp: r_def)
    from getNumber_decimal [OF z this df] show ?thesis by (simp only: fg)
  qed
qed


lemma getRPN_number:
  assumes "getNumber token = Some v"
  shows "getRPN funcs [token] = [numberToString v]"
  using assms by (simp add: getRPN_def getRPN_step_def pop_remaining.simps)

lemma evalRPN_number:
  assumes "getNumber item = Some v"
  shows "evalRPN lm funcs [item] vars = v"
  using evalRPN_step_number [OF assms] by (simp add: evalRPN_def)

lemma special_readback:
  "getNumber (numberToString (Finite s 0)) = Some (Finite s 0)"
  "getNumber (numberToString (Infinity s)) = Some (Infinity s)"
  "getNumber (numberToString (NotANumber s)) = Some (NotANumber s)"
proof -
  have "getNumber (numberToString (Finite True 0)) = Some (Finite True 0)"
    and "getNumber (numberToString (Finite False 0)) = Some (Finite False 0)"
    by code_simp+
  then show "getNumber (numberToString (Finite s 0)) = Some (Finite s 0)"
    by (cases s) (simp_all only:)
  have "getNumber (numberToString (Infinity True)) = Some (Infinity True)"
    and "getNumber (numberToString (Infinity False)) = Some (Infinity False)"
    by code_simp+
  then show "getNumber (numberToString (Infinity s)) = Some (Infinity s)"
    by (cases s) (simp_all only:)
  have "getNumber (numberToString (NotANumber True)) = Some (NotANumber True)"
    and "getNumber (numberToString (NotANumber False)) = Some (NotANumber False)"
    by code_simp+
  then show "getNumber (numberToString (NotANumber s)) = Some (NotANumber s)"
    by (cases s) (simp_all only:)
qed

text \<open>
  Claim C10. In \<open>getRPN\<close> every token that \<open>getNumber\<close> reads as a number is put into
  the output as \<open>numberToString\<close> of its value, that is, written with six significant
  digits. For every positive value \<open>q\<close>, of either sign \<open>s\<close>, the digits \<open>n\<close> and the
  decimal exponent \<open>x\<close> that the stream lays out (\<open>decimal6\<close>) satisfy \<open>100000 \<le> n < 1000000\<close>, the
  decimal \<open>n * 10^(x - 5)\<close> is within half a unit of its last digit of \<open>q\<close>, and the text
  written is read again by \<open>getNumber\<close> as the \<open>double\<close> nearest to that decimal: this is
  the value that a literal token has when the expression is evaluated. Zeros, infinities
  and NaNs are written and read again with their sign. The literal \<open>1.0000001\<close> is read
  as the \<open>double\<close> nearest to it, which is not 1; it compiles to the RPN token \<open>1\<close> and
  the expression evaluates to exactly 1. So does \<open>1.000001\<close>, with seven digits, while
  the six digits of \<open>1.00001\<close> are kept; \<open>123456.7\<close> becomes \<open>123457\<close>, \<open>1234567\<close>
  becomes \<open>1.23457e+06\<close> and \<open>999999.5\<close> becomes \<open>1e+06\<close>; small values are rounded
  likewise, trailing zeros are dropped, and a negated \<open>nan\<close> is written as \<open>-nan\<close>.
\<close>

theorem number_literals_reserialized:
  "(getNumber token = Some v \<longrightarrow>
      getRPN_step funcs token (out, ops) = (out @ [numberToString v], ops)
      \<and> getRPN funcs [token] = [numberToString v])
   \<and> (0 < q \<and> decimal6 q = (n, x) \<longrightarrow>
        100000 \<le> n \<and> n < 1000000
        \<and> \<bar>q - of_int n * 10 powi (x - 5)\<bar> \<le> 10 powi (x - 5) / 2
        \<and> getNumber (numberToString (Finite s q))
            = Some (to_double s (of_int n * 10 powi (x - 5)))
        \<and> (getNumber token = Some (Finite s q) \<longrightarrow>
             evalRPN lm funcs (getRPN funcs [token]) vars
               = to_double s (of_int n * 10 powi (x - 5))))
   \<and> getNumber (numberToString (Finite s 0)) = Some (Finite s 0)
   \<and> getNumber (numberToString (Infinity s)) = Some (Infinity s)
   \<and> getNumber (numberToString (NotANumber s)) = Some (NotANumber s)
   \<and> getNumber ''1.0000001'' = Some (Finite False (4503600077730459 / 4503599627370496))
   \<and> Finite False (4503600077730459 / 4503599627370496) \<noteq> Finite False 1
   \<and> numberToString (Finite False (4503600077730459 / 4503599627370496)) = ''1''
   \<and> rpn (Expression_text lm ''1.0000001'') = [''1'']
   \<and> eval lm (Expression_text lm ''1.0000001'') = Finite False 1
   \<and> getRPN funcs [''1.000001''] = [''1'']
   \<and> getRPN funcs [''1.00001''] = [''1.00001'']
   \<and> getRPN funcs [''123456.7''] = [''123457'']
   \<and> getRPN funcs [''1234567''] = [''1.23457e+06'']
   \<and> getRPN funcs [''999999.5''] = [''1e+06'']
   \<and> getRPN funcs [''0.00012345678''] = [''0.000123457'']
   \<and> getRPN funcs [''0.000012345678''] = [''1.23457e-05'']
   \<and> getRPN funcs [''~2.50''] = [''-2.5'']
   \<and> getRPN funcs [''~nan''] = [''-nan'']"
proof (intro conjI impI)
  assume "getNumber token = Some v"
  then show "getRPN_step funcs token (out, ops) = (out @ [numberToString v], ops)"
    by (simp add: getRPN_step_def)
next
  assume "getNumber token = Some v"
  then show "getRPN funcs [token] = [numberToString v]"
    by (rule getRPN_number)
next
  assume "0 < q \<and> decimal6 q = (n, x)"
  then have "0 < q" "decimal6 q = (n, x)" by simp_all
  from decimal6_bounds(1) [OF this] show "100000 \<le> n" .
next
  assume "0 < q \<and> decimal6 q = (n, x)"
  then have "0 < q" "decimal6 q = (n, x)" by simp_all
  from decimal6_bounds(2) [OF this] show "n < 1000000" .
next
  assume "0 < q \<and> decimal6 q = (n, x)"
  then have "0 < q" "decimal6 q = (n, x)" by simp_all
  from decimal6_bounds(3) [OF this]
  show "\<bar>q - of_int n * 10 powi (x - 5)\<bar> \<le> 10 powi (x - 5) / 2"
    by (simp only: pow10_powi)
next
  assume "0 < q \<and> decimal6 q = (n, x)"
  then have "0 < q" "decimal6 q = (n, x)" by simp_all
  from format_g_readback [OF this, of s] \<open>0 < q\<close>
  show "getNumber (numberToString (Finite s q))
      = Some (to_double s (of_int n * 10 powi (x - 5)))"
    by (simp add: numberToString_def show_double_def pow10_powi)
next
  assume "0 < q \<and> decimal6 q = (n, x)" and t: "getNumber token = Some (Finite s q)"
  then have "0 < q" "decimal6 q = (n, x)" by simp_all
  from format_g_readback [OF this, of s] \<open>0 < q\<close>
  have "getNumber (numberToString (Finite s q))
      = Some (to_double s (of_int n * 10 powi (x - 5)))"
    by (simp add: numberToString_def show_double_def pow10_powi)
  from evalRPN_number [OF this]
  show "evalRPN lm funcs (getRPN funcs [token]) vars = to_double s (of_int n * 10 powi (x - 5))"
    by (simp only: getRPN_number [OF t])
next
  show "getNumber (numberToString (Finite s 0)) = Some (Finite s 0)"
    by (rule special_readback)
  show "getNumber (numberToString (Infinity s)) = Some (Infinity s)"
    by (rule special_readback)
  show "getNumber (numberToString (NotANumber s)) = Some (NotANumber s)"
    by (rule special_readback)
  show "getNumber ''1.0000001'' = Some (Finite False (4503600077730459 / 4503599627370496))"
    by code_simp
  show "Finite False (4503600077730459 / 4503599627370496) \<noteq> Finite False 1"
    by simp
  show "numberToString (Finite False (4503600077730459 / 4503599627370496)) = ''1''"
    by code_simp
  show "rpn (Expression_text lm ''1.0000001'') = [''1'']" by code_simp
  show "eval lm (Expression_text lm ''1.0000001'') = Finite False 1" by code_simp
  show "getRPN funcs [''1.000001''] = [''1'']" by code_simp
  show "getRPN funcs [''1.00001''] = [''1.00001'']" by code_simp
  show "getRPN funcs [''123456.7''] = [''123457'']" by code_simp
  show "getRPN funcs [''1234567''] = [''1.23457e+06'']" by code_simp
  show "getRPN funcs [''999999.5''] = [''1e+06'']" by code_simp
  show "getRPN funcs [''0.00012345678''] = [''0.000123457'']" by code_simp
  show "getRPN funcs [''0.000012345678''] = [''1.23457e-05'']" by code_simp
  show "getRPN funcs [''~2.50''] = [''-2.5'']" by code_simp
  show "getRPN funcs [''~nan''] = [''-nan'']" by code_simp
qed

theorem number_literals_reserialized_witness:
  "getNumber ''1.0000001'' = Some (Finite False (4503600077730459 / 4503599627370496))
   \<and> (0::rat) < 4503600077730459 / 4503599627370496
   \<and> decimal6 (4503600077730459 / 4503599627370496) = (100000, 0)
   \<and> getRPN_step [] ''1.0000001'' ([], []) = ([''1''], [])
   \<and> getRPN [] [''1.0000001''] = [''1'']
   \<and> \<bar>4503600077730459 / 4503599627370496 - 100000 * 10 powi (- 5)\<bar> \<le> (10 powi (- 5) / 2 :: rat)
   \<and> getNumber (numberToString (Finite False (4503600077730459 / 4503599627370496)))
       = Some (Finite False 1)
   \<and> evalRPN example_libm [] (getRPN [] [''1.0000001'']) [] = Finite False 1"
proof -
  have d: "decimal6 (4503600077730459 / 4503599627370496) = (100000, 0)"
    by code_simp
  have p: "(0::rat) < 4503600077730459 / 4503599627370496" by simp
  have "(100000::rat) * 10 powi (- 5) = 1" by (simp add: power_int_minus)
  moreover have "to_double False 1 = Finite False 1" by code_simp
  ultimately have r: "to_double False (of_int 100000 * 10 powi (0 - 5)) = Finite False 1"
    by simp
  note t = number_literals_reserialized [where token = "''1.0000001''" and funcs = "[]"
      and out = "[]" and ops = "[]" and vars = "[]" and s = False
      and v = "Finite False (4503600077730459 / 4503599627370496)" and lm = example_libm
      and q = "4503600077730459 / 4503599627370496" and n = 100000 and x = 0]
  from t have g: "getNumber ''1.0000001'' = Some (Finite False (4503600077730459 / 4503599627370496))"
    and "numberToString (Finite False (4503600077730459 / 4503599627370496)) = ''1''"
    by blast+
  with t have "getRPN_step [] ''1.0000001'' ([], []) = ([''1''], [])"
    and "getRPN [] [''1.0000001''] = [''1'']"
    by simp_all
  moreover from t d p
  have "\<bar>4503600077730459 / 4503599627370496 - of_int 100000 * 10 powi (0 - 5)\<bar>
      \<le> (10 powi (0 - 5) / 2 :: rat)"
    and "getNumber (numberToString (Finite False (4503600077730459 / 4503599627370496)))
       = Some (to_double False (of_int 100000 * 10 powi (0 - 5)))"
    and "evalRPN example_libm [] (getRPN [] [''1.0000001'']) []
       = to_double False (of_int 100000 * 10 powi (0 - 5))"
    using g by blast+
  ultimately show ?thesis using g d p r by simp
qed

end
